theory Spec2Isabelle
  imports Main "HOL-Library.Word"
begin

unbundle bit_operations_syntax

section \<open>Data: bytes, JavaScript strings, errors\<close>

text \<open>
  A \<open>Uint8Array\<close> is a list of 8-bit words.  A JavaScript string is a sequence of
  UTF-16 code units, so \<open>length\<close> and \<open>substring\<close> count code units, as the
  scripts do.  Every \<open>throw\<close> of the scripts and of the platform calls they make is
  a value of \<open>error\<close>.
\<close>

type_synonym byte = "8 word"
type_synonym bytes = "byte list"
type_synonym codeunit = "16 word"
type_synonym jsstring = "codeunit list"

datatype error =
    InvalidHexString      \<comment> \<open>\<open>throw new Error('Invalid hexString')\<close>\<close>
  | DataError             \<comment> \<open>\<open>importKey\<close>: raw AES key of a wrong length\<close>
  | OperationError        \<comment> \<open>\<open>crypto.subtle.encrypt/decrypt\<close>: bad IV, length or padding\<close>
  | SyntaxError           \<comment> \<open>\<open>JSON.parse\<close>\<close>
  | ENOENT                \<comment> \<open>file system call on a missing file\<close>
  | ExecError             \<comment> \<open>\<open>execSync\<close>: the child process failed\<close>

definition bindE :: "error + 'a \<Rightarrow> ('a \<Rightarrow> error + 'b) \<Rightarrow> error + 'b" where
  "bindE m f = (case m of Inl e \<Rightarrow> Inl e | Inr x \<Rightarrow> f x)"

section \<open>HexEncoder\<close>

subsection \<open>\<open>parseInt(s, 16)\<close>\<close>

text \<open>
  \<open>HexEncoder.parse\<close> reads each pair of characters with the platform's
  \<open>parseInt(pair, 16)\<close> and rejects the pair only when the result is \<open>NaN\<close>.
  \<open>parseInt\<close> (ECMA-262, 19.2.5) trims leading white space, reads an optional sign, drops
  a \<open>0x\<close>/\<open>0X\<close> prefix, then reads the longest prefix of radix digits; it is
  \<open>NaN\<close> (here \<open>None\<close>) only when that prefix is empty.
\<close>

definition isWhiteSpace :: "codeunit \<Rightarrow> bool" where
  "isWhiteSpace c \<longleftrightarrow>
     c \<in> {0x09, 0x0A, 0x0B, 0x0C, 0x0D, 0x20, 0xA0, 0x1680, 0x2028, 0x2029,
          0x202F, 0x205F, 0x3000, 0xFEFF}
     \<or> (0x2000 \<le> c \<and> c \<le> 0x200A)"

definition hexDigitValue :: "codeunit \<Rightarrow> nat option" where
  "hexDigitValue c =
     (if 0x30 \<le> c \<and> c \<le> 0x39 then Some (unat c - 0x30)
      else if 0x61 \<le> c \<and> c \<le> 0x66 then Some (unat c - 0x61 + 10)
      else if 0x41 \<le> c \<and> c \<le> 0x46 then Some (unat c - 0x41 + 10)
      else None)"

fun digitsValue :: "nat \<Rightarrow> jsstring \<Rightarrow> nat" where
  "digitsValue acc [] = acc"
| "digitsValue acc (c # cs) =
     (case hexDigitValue c of
        None \<Rightarrow> acc
      | Some d \<Rightarrow> digitsValue (acc * 16 + d) cs)"

definition parseInt16 :: "jsstring \<Rightarrow> int option" where
  "parseInt16 inputString =
     (let S = dropWhile isWhiteSpace inputString;
          sign = (if S \<noteq> [] \<and> hd S = 0x2D then -1 else 1 :: int);
          S1 = (if S \<noteq> [] \<and> (hd S = 0x2B \<or> hd S = 0x2D) then tl S else S);
          S2 = (if 2 \<le> length S1 \<and> hd S1 = 0x30 \<and> (hd (tl S1) = 0x78 \<or> hd (tl S1) = 0x58)
                then drop 2 S1 else S1);
          Z = takeWhile (\<lambda>c. hexDigitValue c \<noteq> None) S2
      in if Z = [] then None else Some (sign * int (digitsValue 0 Z)))"

subsection \<open>\<open>HexEncoder.parse\<close> and \<open>HexEncoder.stringify\<close>\<close>

text \<open>
  The loop of \<open>parse\<close> walks the string two code units at a time; storing into the
  \<open>Uint8Array\<close> reduces the number modulo 256, which \<open>of_int\<close> on \<open>8 word\<close> does.
\<close>

fun parse_loop :: "jsstring \<Rightarrow> error + bytes" where
  "parse_loop (a # b # rest) =
     (case parseInt16 [a, b] of
        None \<Rightarrow> Inl InvalidHexString
      | Some byteValue \<Rightarrow> bindE (parse_loop rest) (\<lambda>bs. Inr (of_int byteValue # bs)))"
| "parse_loop [a] =
     (case parseInt16 [a] of
        None \<Rightarrow> Inl InvalidHexString
      | Some byteValue \<Rightarrow> Inr [of_int byteValue])"
| "parse_loop [] = Inr []"

definition HexEncoder_parse :: "jsstring \<Rightarrow> error + bytes" where
  "HexEncoder_parse hexString =
     (if length hexString mod 2 \<noteq> 0 then Inl InvalidHexString else parse_loop hexString)"

text \<open>\<open>Number.prototype.toString(16)\<close> on a byte: lower-case digits, no leading zero.\<close>

definition hexChar :: "nat \<Rightarrow> codeunit" where
  "hexChar d = (if d < 10 then of_nat (0x30 + d) else of_nat (0x61 + (d - 10)))"

definition toString16 :: "byte \<Rightarrow> jsstring" where
  "toString16 b =
     (if unat b < 16 then [hexChar (unat b)]
      else [hexChar (unat b div 16), hexChar (unat b mod 16)])"

fun HexEncoder_stringify :: "bytes \<Rightarrow> jsstring" where
  "HexEncoder_stringify [] = []"
| "HexEncoder_stringify (b # bs) =
     (let byteString = toString16 b;
          byteString' = (if length byteString < 2 then 0x30 # byteString else byteString)
      in byteString' @ HexEncoder_stringify bs)"

section \<open>UTF8Encoder\<close>

text \<open>
  \<open>UTF8Encoder.parse\<close> is \<open>new TextEncoder().encode(str)\<close> and
  \<open>UTF8Encoder.stringify\<close> is \<open>new TextDecoder().decode(bytes)\<close>.  Both are platform
  calls (WHATWG Encoding Standard).  The encoder first turns the code units into scalar
  values, a lone surrogate becoming U+FFFD, and writes each in UTF-8.  The decoder drops a
  leading byte order mark (the default \<open>ignoreBOM: false\<close>), replaces every ill-formed
  sequence by U+FFFD, and turns the code points back into code units.
\<close>

definition isHighSurrogate :: "codeunit \<Rightarrow> bool" where
  "isHighSurrogate c \<longleftrightarrow> 0xD800 \<le> unat c \<and> unat c \<le> 0xDBFF"

definition isLowSurrogate :: "codeunit \<Rightarrow> bool" where
  "isLowSurrogate c \<longleftrightarrow> 0xDC00 \<le> unat c \<and> unat c \<le> 0xDFFF"

fun scalarValues :: "jsstring \<Rightarrow> nat list" where
  "scalarValues [] = []"
| "scalarValues [c] =
     (if isHighSurrogate c \<or> isLowSurrogate c then [0xFFFD] else [unat c])"
| "scalarValues (c # d # cs) =
     (if isHighSurrogate c \<and> isLowSurrogate d
        then (0x10000 + (unat c - 0xD800) * 0x400 + (unat d - 0xDC00)) # scalarValues cs
      else if isHighSurrogate c \<or> isLowSurrogate c
        then 0xFFFD # scalarValues (d # cs)
      else unat c # scalarValues (d # cs))"

definition utf8EncodeCodePoint :: "nat \<Rightarrow> bytes" where
  "utf8EncodeCodePoint cp =
     (if cp < 0x80 then [of_nat cp]
      else if cp < 0x800 then [of_nat (0xC0 + cp div 64), of_nat (0x80 + cp mod 64)]
      else if cp < 0x10000 then
        [of_nat (0xE0 + cp div 4096), of_nat (0x80 + cp div 64 mod 64),
         of_nat (0x80 + cp mod 64)]
      else
        [of_nat (0xF0 + cp div 262144), of_nat (0x80 + cp div 4096 mod 64),
         of_nat (0x80 + cp div 64 mod 64), of_nat (0x80 + cp mod 64)])"

definition UTF8Encoder_parse :: "jsstring \<Rightarrow> bytes" where
  "UTF8Encoder_parse str = concat (map utf8EncodeCodePoint (scalarValues str))"

text \<open>
  The decoder's state is the code point built so far, the number of continuation bytes
  still needed and the bounds for the next byte.  A byte outside the bounds ends the
  sequence with U+FFFD and is read again as the start of the next one.
\<close>

function utf8Decoder :: "nat \<Rightarrow> nat \<Rightarrow> nat \<Rightarrow> nat \<Rightarrow> bytes \<Rightarrow> nat list" where
  "utf8Decoder cp needed lower upper [] = (if needed \<noteq> 0 then [0xFFFD] else [])"
| "utf8Decoder cp needed lower upper (b # bs) =
     (if needed = 0 then
        (if unat b \<le> 0x7F then unat b # utf8Decoder 0 0 0x80 0xBF bs
         else if 0xC2 \<le> unat b \<and> unat b \<le> 0xDF
           then utf8Decoder (unat b mod 32) 1 0x80 0xBF bs
         else if 0xE0 \<le> unat b \<and> unat b \<le> 0xEF
           then utf8Decoder (unat b mod 16) 2
                  (if unat b = 0xE0 then 0xA0 else 0x80)
                  (if unat b = 0xED then 0x9F else 0xBF) bs
         else if 0xF0 \<le> unat b \<and> unat b \<le> 0xF4
           then utf8Decoder (unat b mod 8) 3
                  (if unat b = 0xF0 then 0x90 else 0x80)
                  (if unat b = 0xF4 then 0x8F else 0xBF) bs
         else 0xFFFD # utf8Decoder 0 0 0x80 0xBF bs)
      else if unat b < lower \<or> upper < unat b
        then 0xFFFD # utf8Decoder 0 0 0x80 0xBF (b # bs)
      else if needed = 1
        then (cp * 64 + unat b mod 64) # utf8Decoder 0 0 0x80 0xBF bs
      else utf8Decoder (cp * 64 + unat b mod 64) (needed - 1) 0x80 0xBF bs)"
  by pat_completeness auto
termination
  by (relation "measure (\<lambda>(cp, needed, lower, upper, bs).
        2 * length bs + (if needed = 0 then 0 else 1))") auto

declare utf8Decoder.simps [simp del]

definition utf16CodeUnits :: "nat \<Rightarrow> jsstring" where
  "utf16CodeUnits cp =
     (if cp < 0x10000 then [of_nat cp]
      else [of_nat (0xD800 + (cp - 0x10000) div 0x400),
            of_nat (0xDC00 + (cp - 0x10000) mod 0x400)])"

definition utf8Decode :: "bytes \<Rightarrow> jsstring" where
  "utf8Decode bs = concat (map utf16CodeUnits (utf8Decoder 0 0 0x80 0xBF bs))"

fun stripBOM :: "bytes \<Rightarrow> bytes" where
  "stripBOM (b0 # b1 # b2 # bs) =
     (if b0 = 0xEF \<and> b1 = 0xBB \<and> b2 = 0xBF then bs else b0 # b1 # b2 # bs)"
| "stripBOM bs = bs"

definition UTF8Encoder_stringify :: "bytes \<Rightarrow> jsstring" where
  "UTF8Encoder_stringify bs = utf8Decode (stripBOM bs)"

text \<open>\<open>String.prototype.isWellFormed\<close>: no lone surrogate.\<close>

fun isWellFormed :: "jsstring \<Rightarrow> bool" where
  "isWellFormed [] = True"
| "isWellFormed [c] = (\<not> isHighSurrogate c \<and> \<not> isLowSurrogate c)"
| "isWellFormed (c # d # cs) =
     (if isHighSurrogate c then isLowSurrogate d \<and> isWellFormed cs
      else \<not> isLowSurrogate c \<and> isWellFormed (d # cs))"

definition startsWithBOM :: "jsstring \<Rightarrow> bool" where
  "startsWithBOM str = (case str of [] \<Rightarrow> False | c # _ \<Rightarrow> c = 0xFEFF)"

section \<open>Platform primitives\<close>

text \<open>
  The scripts call into the platform for everything cryptographic and for JSON, and the
  full encryption script runs the StatiCrypt command line tool.  None of that is code of
  the repository, so it is a parameter of the model:
  \<^item> \<open>aesEncryptBlock key block\<close> and \<open>aesDecryptBlock key block\<close>: the AES block
    cipher that \<open>crypto.subtle\<close> runs in CBC mode;
  \<^item> \<open>deriveBits hash iterations salt password length\<close>: PBKDF2 of
    \<open>crypto.subtle.deriveBits\<close>;
  \<^item> \<open>configSalt text\<close>: \<open>JSON.parse(text).salt\<close>, as the text encoder reads it, or the
    error thrown on the way;
  \<^item> \<open>jsonParses text\<close>: \<open>JSON.parse(text)\<close> returns;
  \<^item> \<open>patchIndexHtml salt html\<close> and \<open>patchEncryptedHtml html\<close>: the two pairs of
    \<open>String.prototype.replace\<close> calls on the host document;
  \<^item> \<open>staticrypt password files\<close>: the child process; it returns whether it succeeded
    and the files it leaves.
\<close>

datatype hashAlgorithm = SHA_1 | SHA_256

datatype path =
  INDEX_PATH | INDEX_BAK_PATH | DATA_PATH | DATA_ENC_PATH | CONFIG_PATH | ENCRYPTED_INDEX_PATH

type_synonym filesystem = "path \<rightharpoonup> bytes"

record platform =
  aesEncryptBlock :: "bytes \<Rightarrow> bytes \<Rightarrow> bytes"
  aesDecryptBlock :: "bytes \<Rightarrow> bytes \<Rightarrow> bytes"
  deriveBits :: "hashAlgorithm \<Rightarrow> nat \<Rightarrow> bytes \<Rightarrow> bytes \<Rightarrow> nat \<Rightarrow> bytes"
  configSalt :: "jsstring \<Rightarrow> error + jsstring"
  jsonParses :: "jsstring \<Rightarrow> bool"
  patchIndexHtml :: "jsstring \<Rightarrow> jsstring \<Rightarrow> jsstring"
  patchEncryptedHtml :: "jsstring \<Rightarrow> jsstring"
  staticrypt :: "jsstring \<Rightarrow> filesystem \<Rightarrow> bool \<times> filesystem"

subsection \<open>AES-CBC of \<open>crypto.subtle\<close>\<close>

text \<open>
  \<open>crypto.subtle.encrypt({name: 'AES-CBC', iv}, key, data)\<close> pads the data to whole
  16-byte blocks (PKCS#7) and chains the blocks; \<open>decrypt\<close> undoes both and throws an
  \<open>OperationError\<close> on a bad length or bad padding.  \<open>importKey\<close> accepts a raw AES
  key of 128, 192 or 256 bits only.
\<close>

definition xorBlock :: "bytes \<Rightarrow> bytes \<Rightarrow> bytes" where
  "xorBlock a b = map2 (XOR) a b"

function blocks16 :: "bytes \<Rightarrow> bytes list" where
  "blocks16 bs = (if bs = [] then [] else take 16 bs # blocks16 (drop 16 bs))"
  by pat_completeness auto
termination
  by (relation "measure length") auto

declare blocks16.simps [simp del]

fun cbcEncryptBlocks :: "(bytes \<Rightarrow> bytes) \<Rightarrow> bytes \<Rightarrow> bytes list \<Rightarrow> bytes list" where
  "cbcEncryptBlocks Ek prev [] = []"
| "cbcEncryptBlocks Ek prev (p # ps) =
     (let c = Ek (xorBlock prev p) in c # cbcEncryptBlocks Ek c ps)"

fun cbcDecryptBlocks :: "(bytes \<Rightarrow> bytes) \<Rightarrow> bytes \<Rightarrow> bytes list \<Rightarrow> bytes list" where
  "cbcDecryptBlocks Dk prev [] = []"
| "cbcDecryptBlocks Dk prev (c # cs) = xorBlock prev (Dk c) # cbcDecryptBlocks Dk c cs"

definition pkcs7Pad :: "bytes \<Rightarrow> bytes" where
  "pkcs7Pad data = (let n = 16 - length data mod 16 in data @ replicate n (of_nat n))"

definition pkcs7Unpad :: "bytes \<Rightarrow> error + bytes" where
  "pkcs7Unpad data =
     (if data = [] then Inl OperationError
      else let n = unat (last data) in
        if n = 0 \<or> 16 < n \<or> length data < n
           \<or> drop (length data - n) data \<noteq> replicate n (last data)
        then Inl OperationError
        else Inr (take (length data - n) data))"

definition importKey :: "bytes \<Rightarrow> error + bytes" where
  "importKey raw =
     (if length raw = 16 \<or> length raw = 24 \<or> length raw = 32 then Inr raw
      else Inl DataError)"

definition subtleEncrypt :: "platform \<Rightarrow> bytes \<Rightarrow> bytes \<Rightarrow> bytes \<Rightarrow> error + bytes" where
  "subtleEncrypt P iv key data =
     (if length iv \<noteq> 16 then Inl OperationError
      else Inr (concat (cbcEncryptBlocks (aesEncryptBlock P key) iv (blocks16 (pkcs7Pad data)))))"

definition subtleDecrypt :: "platform \<Rightarrow> bytes \<Rightarrow> bytes \<Rightarrow> bytes \<Rightarrow> error + bytes" where
  "subtleDecrypt P iv key data =
     (if length iv \<noteq> 16 then Inl OperationError
      else if data = [] \<or> length data mod 16 \<noteq> 0 then Inl OperationError
      else pkcs7Unpad (concat (cbcDecryptBlocks (aesDecryptBlock P key) iv (blocks16 data))))"

section \<open>Key derivation\<close>

definition pbkdf2 :: "platform \<Rightarrow> jsstring \<Rightarrow> jsstring \<Rightarrow> nat \<Rightarrow> hashAlgorithm \<Rightarrow> jsstring" where
  "pbkdf2 P password salt iterations hashAlg =
     (let key = UTF8Encoder_parse password;
          keyBytes = deriveBits P hashAlg iterations (UTF8Encoder_parse salt) key 256
      in HexEncoder_stringify keyBytes)"

definition hashPassword :: "platform \<Rightarrow> jsstring \<Rightarrow> jsstring \<Rightarrow> jsstring" where
  "hashPassword P password salt =
     (let hashedPassword = pbkdf2 P password salt 1000 SHA_1;
          hashedPassword' = pbkdf2 P hashedPassword salt 14000 SHA_256
      in pbkdf2 P hashedPassword' salt 585000 SHA_256)"

section \<open>The cipher wrapper\<close>

text \<open>
  \<open>encrypt\<close> draws its IV from \<open>crypto.getRandomValues\<close>; here the 16 bytes drawn are
  the argument \<open>iv\<close>, and the workflows below draw them from the world's random source.
\<close>

definition encrypt :: "platform \<Rightarrow> bytes \<Rightarrow> jsstring \<Rightarrow> jsstring \<Rightarrow> error + jsstring" where
  "encrypt P iv msg hashedPassword =
     bindE (HexEncoder_parse hashedPassword) (\<lambda>raw.
     bindE (importKey raw) (\<lambda>key.
     bindE (subtleEncrypt P iv key (UTF8Encoder_parse msg)) (\<lambda>encrypted.
     Inr (HexEncoder_stringify iv @ HexEncoder_stringify encrypted))))"

definition ivLength :: nat where
  "ivLength = (16 * 8) div 4"

definition decrypt :: "platform \<Rightarrow> jsstring \<Rightarrow> jsstring \<Rightarrow> error + jsstring" where
  "decrypt P encryptedMsg hashedPassword =
     bindE (HexEncoder_parse (take ivLength encryptedMsg)) (\<lambda>iv.
     let encrypted = drop ivLength encryptedMsg in
     bindE (HexEncoder_parse hashedPassword) (\<lambda>raw.
     bindE (importKey raw) (\<lambda>key.
     bindE (HexEncoder_parse encrypted) (\<lambda>ct.
     bindE (subtleDecrypt P iv key ct) (\<lambda>outBuffer.
     Inr (UTF8Encoder_stringify outBuffer))))))"

text \<open>A DerivedKey of the data model: 256 bits as 64 lower-case hex digits.\<close>

definition isLowerHexDigit :: "codeunit \<Rightarrow> bool" where
  "isLowerHexDigit c \<longleftrightarrow> (0x30 \<le> c \<and> c \<le> 0x39) \<or> (0x61 \<le> c \<and> c \<le> 0x66)"

definition isDerivedKey :: "jsstring \<Rightarrow> bool" where
  "isDerivedKey k \<longleftrightarrow> length k = 64 \<and> list_all isLowerHexDigit k"

section \<open>The scripts as processes\<close>

text \<open>
  A script runs against a world: the files of the repository directory, the random
  source behind \<open>crypto.getRandomValues\<close>, and a trace of the effects the script has
  had so far, in order.  A step either returns a value or stops the process: by
  \<open>process.exit\<close> or by throwing.  An error nobody catches reaches
  \<open>main().catch\<close>, which exits with status 1.
\<close>

datatype event =
    Read path
  | Write path
  | Copy path path
  | Unlink path
  | RmEncryptedDir
  | HashPassword
  | RunStatiCrypt

record world =
  files :: filesystem
  randomBytes :: "nat \<Rightarrow> byte"
  drawn :: nat
  trace :: "event list"

text \<open>
  Why a process ended, after the message it prints:
  \<open>MissingCredential\<close> for "STATICRYPT_PASSWORD environment variable is required",
  \<open>MissingInput\<close> for "stats.json not found. Run the scraper first.",
  \<open>ConfigMissing\<close> for ".staticrypt.json not found",
  \<open>ExternalToolFailed\<close> for "StatiCrypt encryption failed",
  \<open>DecryptionFailed\<close> for "Decryption failed" in the \<open>catch\<close> block of the decryption
  script, and \<open>Uncaught\<close> for an error that reaches \<open>main().catch\<close>.
\<close>

datatype reason =
    MissingCredential
  | MissingInput
  | ConfigMissing
  | ExternalToolFailed
  | DecryptionFailed error
  | Uncaught error

datatype outcome = Completed | NoOp | Failed reason

fun exitCode :: "outcome \<Rightarrow> nat" where
  "exitCode Completed = 0"
| "exitCode NoOp = 0"
| "exitCode (Failed r) = 1"

datatype stop = Exit outcome | Throw error

type_synonym 'a io = "world \<Rightarrow> (stop + 'a) \<times> world"

definition returnIO :: "'a \<Rightarrow> 'a io" where
  "returnIO x = (\<lambda>w. (Inr x, w))"

definition bindIO :: "'a io \<Rightarrow> ('a \<Rightarrow> 'b io) \<Rightarrow> 'b io" where
  "bindIO m f = (\<lambda>w. case m w of (Inl s, w') \<Rightarrow> (Inl s, w') | (Inr x, w') \<Rightarrow> f x w')"

definition process_exit :: "outcome \<Rightarrow> 'a io" where
  "process_exit oc = (\<lambda>w. (Inl (Exit oc), w))"

definition liftE :: "error + 'a \<Rightarrow> 'a io" where
  "liftE r = (\<lambda>w. case r of Inl e \<Rightarrow> (Inl (Throw e), w) | Inr x \<Rightarrow> (Inr x, w))"

definition tryCatch :: "'a io \<Rightarrow> (error \<Rightarrow> 'a io) \<Rightarrow> 'a io" where
  "tryCatch m handler =
     (\<lambda>w. case m w of (Inl (Throw e), w') \<Rightarrow> handler e w' | r \<Rightarrow> r)"

definition logEvent :: "event \<Rightarrow> world \<Rightarrow> world" where
  "logEvent ev w = w\<lparr>trace := trace w @ [ev]\<rparr>"

definition existsSync :: "path \<Rightarrow> bool io" where
  "existsSync p = (\<lambda>w. (Inr (files w p \<noteq> None), w))"

text \<open>
  \<open>fs.readFileSync(p, 'utf8')\<close> decodes the file as UTF-8 and keeps a byte order mark;
  \<open>fs.writeFileSync(p, str)\<close> writes the UTF-8 encoding of the string.
\<close>

definition readFileSync :: "path \<Rightarrow> jsstring io" where
  "readFileSync p =
     (\<lambda>w. case files w p of
             None \<Rightarrow> (Inl (Throw ENOENT), w)
           | Some content \<Rightarrow> (Inr (utf8Decode content), logEvent (Read p) w))"

definition writeFileSync :: "path \<Rightarrow> jsstring \<Rightarrow> unit io" where
  "writeFileSync p str =
     (\<lambda>w. (Inr (), logEvent (Write p) (w\<lparr>files := (files w)(p \<mapsto> UTF8Encoder_parse str)\<rparr>)))"

definition copyFileSync :: "path \<Rightarrow> path \<Rightarrow> unit io" where
  "copyFileSync src dest =
     (\<lambda>w. case files w src of
             None \<Rightarrow> (Inl (Throw ENOENT), w)
           | Some content \<Rightarrow>
               (Inr (), logEvent (Copy src dest) (w\<lparr>files := (files w)(dest \<mapsto> content)\<rparr>)))"

definition unlinkSync :: "path \<Rightarrow> unit io" where
  "unlinkSync p =
     (\<lambda>w. case files w p of
             None \<Rightarrow> (Inl (Throw ENOENT), w)
           | Some content \<Rightarrow>
               (Inr (), logEvent (Unlink p) (w\<lparr>files := (files w)(p := None)\<rparr>)))"

definition rmEncryptedDir :: "unit io" where
  "rmEncryptedDir =
     (\<lambda>w. (Inr (), logEvent RmEncryptedDir
                     (w\<lparr>files := (files w)(ENCRYPTED_INDEX_PATH := None)\<rparr>)))"

definition getRandomValues :: "nat \<Rightarrow> bytes io" where
  "getRandomValues n =
     (\<lambda>w. (Inr (map (randomBytes w) [drawn w ..< drawn w + n]), w\<lparr>drawn := drawn w + n\<rparr>))"

definition execStatiCrypt :: "platform \<Rightarrow> jsstring \<Rightarrow> unit io" where
  "execStatiCrypt P password =
     (\<lambda>w. case staticrypt P password (files w) of
             (ok, files') \<Rightarrow>
               (if ok then Inr () else Inl (Throw ExecError),
                logEvent RunStatiCrypt (w\<lparr>files := files'\<rparr>)))"

definition hashPasswordIO :: "platform \<Rightarrow> jsstring \<Rightarrow> jsstring \<Rightarrow> jsstring io" where
  "hashPasswordIO P password salt =
     (\<lambda>w. (Inr (hashPassword P password salt), logEvent HashPassword w))"

definition encryptIO :: "platform \<Rightarrow> jsstring \<Rightarrow> jsstring \<Rightarrow> jsstring io" where
  "encryptIO P msg hashedPassword =
     bindIO (getRandomValues (16 * 8 div 8)) (\<lambda>iv.
     liftE (encrypt P iv msg hashedPassword))"

definition runMain :: "unit io \<Rightarrow> world \<Rightarrow> outcome \<times> world" where
  "runMain body w =
     (case body w of
        (Inr u, w') \<Rightarrow> (Completed, w')
      | (Inl (Exit oc), w') \<Rightarrow> (oc, w')
      | (Inl (Throw e), w') \<Rightarrow> (Failed (Uncaught e), w'))"

text \<open>\<open>!password\<close>: the variable is unset or empty.\<close>

definition noPassword :: "jsstring option \<Rightarrow> bool" where
  "noPassword env = (case env of None \<Rightarrow> True | Some pw \<Rightarrow> pw = [])"

subsection \<open>\<open>scripts/encrypt.js\<close>\<close>

definition generateRandomSalt :: "jsstring io" where
  "generateRandomSalt =
     bindIO (getRandomValues (128 div 8)) (\<lambda>bs. returnIO (HexEncoder_stringify bs))"

text \<open>
  \<open>JSON.stringify({ salt }, null, 2)\<close> for a salt of hex digits, which needs no
  escaping: an opening brace, a line feed, two spaces, \<open>"salt": "..."\<close>, a line feed and a
  closing brace.
\<close>

definition stringifyConfig :: "jsstring \<Rightarrow> jsstring" where
  "stringifyConfig salt =
     [0x7B, 0x0A, 0x20, 0x20, 0x22, 0x73, 0x61, 0x6C, 0x74, 0x22, 0x3A, 0x20, 0x22]
     @ salt @ [0x22, 0x0A, 0x7D]"

definition loadOrCreateConfig :: "platform \<Rightarrow> jsstring io" where
  "loadOrCreateConfig P =
     bindIO (existsSync CONFIG_PATH) (\<lambda>ex.
       if ex then
         bindIO (readFileSync CONFIG_PATH) (\<lambda>text. liftE (configSalt P text))
       else
         bindIO generateRandomSalt (\<lambda>salt.
         bindIO (writeFileSync CONFIG_PATH (stringifyConfig salt)) (\<lambda>u.
         returnIO salt)))"

definition encrypt_main_body :: "platform \<Rightarrow> jsstring option \<Rightarrow> unit io" where
  "encrypt_main_body P env =
     (if noPassword env then process_exit (Failed MissingCredential)
      else let password = the env in
        bindIO (existsSync DATA_PATH) (\<lambda>ex.
        if \<not> ex then process_exit (Failed MissingInput)
        else
          bindIO (loadOrCreateConfig P) (\<lambda>salt.
          bindIO (hashPasswordIO P password salt) (\<lambda>hashedPassword.
          bindIO (readFileSync DATA_PATH) (\<lambda>dataContent.
          bindIO (encryptIO P dataContent hashedPassword) (\<lambda>encryptedData.
          bindIO (writeFileSync DATA_ENC_PATH encryptedData) (\<lambda>u.
          bindIO (existsSync INDEX_BAK_PATH) (\<lambda>bak.
          bindIO (if bak then copyFileSync INDEX_BAK_PATH INDEX_PATH
                  else copyFileSync INDEX_PATH INDEX_BAK_PATH) (\<lambda>u.
          bindIO (readFileSync INDEX_PATH) (\<lambda>indexHtml.
          bindIO (writeFileSync INDEX_PATH (patchIndexHtml P salt indexHtml)) (\<lambda>u.
          bindIO (tryCatch (execStatiCrypt P password)
                    (\<lambda>e. process_exit (Failed ExternalToolFailed))) (\<lambda>u.
          bindIO (existsSync ENCRYPTED_INDEX_PATH) (\<lambda>enc.
          bindIO (if enc then
                    bindIO (readFileSync ENCRYPTED_INDEX_PATH) (\<lambda>encryptedHtml.
                    bindIO (writeFileSync INDEX_PATH (patchEncryptedHtml P encryptedHtml)) (\<lambda>u.
                    rmEncryptedDir))
                  else returnIO ()) (\<lambda>u.
          bindIO (existsSync DATA_PATH) (\<lambda>still.
          if still then unlinkSync DATA_PATH else returnIO ())))))))))))))))"

definition encrypt_main :: "platform \<Rightarrow> jsstring option \<Rightarrow> world \<Rightarrow> outcome \<times> world" where
  "encrypt_main P env = runMain (encrypt_main_body P env)"

subsection \<open>The data-only encryption script\<close>

definition encrypt_data_main_body :: "platform \<Rightarrow> jsstring option \<Rightarrow> unit io" where
  "encrypt_data_main_body P env =
     (if noPassword env then process_exit (Failed MissingCredential)
      else let password = the env in
        bindIO (existsSync DATA_PATH) (\<lambda>ex.
        if \<not> ex then process_exit (Failed MissingInput)
        else
          bindIO (existsSync CONFIG_PATH) (\<lambda>cfg.
          if \<not> cfg then process_exit (Failed ConfigMissing)
          else
            bindIO (readFileSync CONFIG_PATH) (\<lambda>text.
            bindIO (liftE (configSalt P text)) (\<lambda>salt.
            bindIO (hashPasswordIO P password salt) (\<lambda>hashedPassword.
            bindIO (readFileSync DATA_PATH) (\<lambda>dataContent.
            bindIO (encryptIO P dataContent hashedPassword) (\<lambda>encryptedData.
            bindIO (writeFileSync DATA_ENC_PATH encryptedData) (\<lambda>u.
            unlinkSync DATA_PATH)))))))))"

definition encrypt_data_main :: "platform \<Rightarrow> jsstring option \<Rightarrow> world \<Rightarrow> outcome \<times> world" where
  "encrypt_data_main P env = runMain (encrypt_data_main_body P env)"

subsection \<open>The decryption script\<close>

definition decrypt_main_body :: "platform \<Rightarrow> jsstring option \<Rightarrow> unit io" where
  "decrypt_main_body P env =
     (if noPassword env then process_exit (Failed MissingCredential)
      else let password = the env in
        bindIO (existsSync DATA_ENC_PATH) (\<lambda>ex.
        if \<not> ex then process_exit NoOp
        else
          bindIO (existsSync CONFIG_PATH) (\<lambda>cfg.
          if \<not> cfg then process_exit (Failed ConfigMissing)
          else
            bindIO (readFileSync CONFIG_PATH) (\<lambda>text.
            bindIO (liftE (configSalt P text)) (\<lambda>salt.
            bindIO (hashPasswordIO P password salt) (\<lambda>hashedPassword.
            bindIO (readFileSync DATA_ENC_PATH) (\<lambda>encryptedData.
            tryCatch
              (bindIO (liftE (decrypt P encryptedData hashedPassword)) (\<lambda>decryptedData.
               bindIO (liftE (if jsonParses P decryptedData then Inr () else Inl SyntaxError)) (\<lambda>u.
               writeFileSync DATA_PATH decryptedData)))
              (\<lambda>e. process_exit (Failed (DecryptionFailed e))))))))))"

definition decrypt_main :: "platform \<Rightarrow> jsstring option \<Rightarrow> world \<Rightarrow> outcome \<times> world" where
  "decrypt_main P env = runMain (decrypt_main_body P env)"

text \<open>Event \<open>a\<close> comes before every occurrence of event \<open>b\<close> in a trace.\<close>

fun precedes :: "event \<Rightarrow> event \<Rightarrow> event list \<Rightarrow> bool" where
  "precedes a b [] = True"
| "precedes a b (e # es) = (if e = a then True else e \<noteq> b \<and> precedes a b es)"

section \<open>What the claims speak of\<close>

text \<open>A Unicode scalar value: a code point that is not a surrogate.\<close>

definition isScalarValue :: "nat \<Rightarrow> bool" where
  "isScalarValue cp \<longleftrightarrow> cp < 0x110000 \<and> \<not> (0xD800 \<le> cp \<and> cp \<le> 0xDFFF)"

text \<open>
  What the model asks of the platform's AES: under each key it maps 16-byte blocks to
  16-byte blocks, and decryption undoes encryption.
\<close>

definition blockCipher :: "platform \<Rightarrow> bool" where
  "blockCipher P \<longleftrightarrow>
     (\<forall>key block. length block = 16 \<longrightarrow>
        length (aesEncryptBlock P key block) = 16 \<and>
        aesDecryptBlock P key (aesEncryptBlock P key block) = block)"

text \<open>\<open>deriveBits(..., 256)\<close> returns 256 bits.\<close>

definition derives256 :: "platform \<Rightarrow> bool" where
  "derives256 P \<longleftrightarrow> (\<forall>h n s p. length (deriveBits P h n s p 256) = 32)"

text \<open>The bytes of a string of ASCII characters, one byte for each character.\<close>

definition asciiBytes :: "jsstring \<Rightarrow> bytes" where
  "asciiBytes str = map (\<lambda>c. of_nat (unat c)) str"

text \<open>\<open>decrypt(encrypt(msg, key), key)\<close>, the IV of the encryption being \<open>iv\<close>.\<close>

definition roundTrip :: "platform \<Rightarrow> bytes \<Rightarrow> jsstring \<Rightarrow> jsstring \<Rightarrow> error + jsstring" where
  "roundTrip P iv msg key = bindE (encrypt P iv msg key) (\<lambda>artifact. decrypt P artifact key)"

text \<open>The artifact that \<open>encrypt\<close> returns, where it returns one.\<close>

definition artifactOf :: "platform \<Rightarrow> bytes \<Rightarrow> jsstring \<Rightarrow> jsstring \<Rightarrow> jsstring" where
  "artifactOf P iv msg key = (case encrypt P iv msg key of Inl e \<Rightarrow> [] | Inr artifact \<Rightarrow> artifact)"

section \<open>A stand-in platform and sample inputs\<close>

text \<open>
  A platform on which the model can be run: its block cipher is XOR with the first 16
  bytes of the key (a permutation of the blocks, its own inverse), its key derivation
  pads password and salt to the length asked for, its JSON reader knows the layout that
  \<open>stringifyConfig\<close> writes, and its StatiCrypt copies the host document to
  \<open>encrypted/index.html\<close>.
\<close>

definition xorPlatform :: platform where
  "xorPlatform = \<lparr>
     aesEncryptBlock = (\<lambda>key block. xorBlock (take 16 (key @ replicate 16 0)) block),
     aesDecryptBlock = (\<lambda>key block. xorBlock (take 16 (key @ replicate 16 0)) block),
     deriveBits = (\<lambda>h n salt password len.
        take (len div 8) (password @ salt @ replicate (len div 8) (of_nat n))),
     configSalt = (\<lambda>text. if length text < 16 then Inl SyntaxError
                           else Inr (take (length text - 16) (drop 13 text))),
     jsonParses = (\<lambda>text. text \<noteq> [] \<and> hd text = 0x7B \<and> last text = 0x7D),
     patchIndexHtml = (\<lambda>salt html. html @ salt),
     patchEncryptedHtml = (\<lambda>html. html),
     staticrypt = (\<lambda>password fs.
        case fs INDEX_PATH of
          None \<Rightarrow> (False, fs)
        | Some html \<Rightarrow> (True, fs(ENCRYPTED_INDEX_PATH \<mapsto> html)))
   \<rparr>"

definition sampleIV :: bytes where
  "sampleIV = [0, 1, 2, 3, 4, 5, 6, 7, 8, 9, 10, 11, 12, 13, 14, 15]"

definition otherIV :: bytes where
  "otherIV = [255, 1, 2, 3, 4, 5, 6, 7, 8, 9, 10, 11, 12, 13, 14, 15]"

definition samplePassword :: jsstring where
  "samplePassword = [0x70, 0x77]"

definition sampleSalt :: jsstring where
  "sampleSalt = [0x30, 0x30, 0x31, 0x31]"

text \<open>
  A world to run the scripts in: the plaintext artifact \<open>{}\<close>, a one-character host
  document, no salt file yet, and nothing logged.
\<close>

definition sampleWorld :: world where
  "sampleWorld = \<lparr>
     files = [DATA_PATH \<mapsto> [0x7B, 0x7D], INDEX_PATH \<mapsto> [0x3C]],
     randomBytes = (\<lambda>i. of_nat i),
     drawn = 0,
     trace = [] \<rparr>"

text \<open>
  The world that the full encryption script leaves behind on the sample world, as the
  next process finds it: with nothing logged yet.  \<open>runSalt\<close> and \<open>runIV\<close> are the salt
  and the IV that the script drew from the sample world's random source.
\<close>

definition encryptedWorld :: world where
  "encryptedWorld =
     (snd (encrypt_main xorPlatform (Some samplePassword) sampleWorld))\<lparr>trace := []\<rparr>"

definition runSalt :: jsstring where
  "runSalt = HexEncoder_stringify (map of_nat [0..<16])"

definition runIV :: bytes where
  "runIV = [16, 17, 18, 19, 20, 21, 22, 23, 24, 25, 26, 27, 28, 29, 30, 31]"

text \<open>
  The same world after the encrypted artifact was damaged: it now holds the single
  character \<open>0\<close>.
\<close>

definition corruptedWorld :: world where
  "corruptedWorld = encryptedWorld\<lparr>files := (files encryptedWorld)(DATA_ENC_PATH \<mapsto> [0x30])\<rparr>"


section \<open>Assertions about a run\<close>

text \<open>
  \<open>ensures pre m post abort\<close>: from a world that satisfies \<open>pre\<close>, the step \<open>m\<close> either
  returns \<open>x\<close> in a world that satisfies \<open>post x\<close>, or stops the process with \<open>s\<close> in a
  world that satisfies \<open>abort s\<close>.
\<close>

definition ensures ::
  "(world \<Rightarrow> bool) \<Rightarrow> 'a io \<Rightarrow> ('a \<Rightarrow> world \<Rightarrow> bool) \<Rightarrow> (stop \<Rightarrow> world \<Rightarrow> bool) \<Rightarrow> bool" where
  "ensures pre m post abort \<longleftrightarrow>
     (\<forall>w. pre w \<longrightarrow> (case m w of (Inr x, w') \<Rightarrow> post x w' | (Inl s, w') \<Rightarrow> abort s w'))"

fun stopCode :: "stop \<Rightarrow> nat" where
  "stopCode (Exit oc) = exitCode oc"
| "stopCode (Throw e) = 1"

text \<open>
  The phases of the full encryption script, read off the trace.  \<open>d\<close> is the plaintext
  artifact as the script found it.
\<close>

definition beforeWrite :: "bytes option \<Rightarrow> world \<Rightarrow> bool" where
  "beforeWrite d w \<longleftrightarrow>
     files w DATA_PATH = d \<and> Write DATA_ENC_PATH \<notin> set (trace w)
     \<and> Unlink DATA_PATH \<notin> set (trace w) \<and> RunStatiCrypt \<notin> set (trace w)"

definition written :: "world \<Rightarrow> bool" where
  "written w \<longleftrightarrow>
     Write DATA_ENC_PATH \<in> set (trace w) \<and> Unlink DATA_PATH \<notin> set (trace w)
     \<and> RunStatiCrypt \<notin> set (trace w)"

definition patched :: "world \<Rightarrow> bool" where
  "patched w \<longleftrightarrow> written w \<and> Write INDEX_PATH \<in> set (trace w)"

definition toolRan :: "world \<Rightarrow> bool" where
  "toolRan w \<longleftrightarrow>
     Write DATA_ENC_PATH \<in> set (trace w) \<and> RunStatiCrypt \<in> set (trace w)
     \<and> Write INDEX_PATH \<in> set (trace w) \<and> Unlink DATA_PATH \<notin> set (trace w)
     \<and> precedes (Write INDEX_PATH) RunStatiCrypt (trace w)"

definition published :: "world \<Rightarrow> bool" where
  "published w \<longleftrightarrow>
     Write DATA_ENC_PATH \<in> set (trace w) \<and> RunStatiCrypt \<in> set (trace w)
     \<and> precedes (Write DATA_ENC_PATH) (Unlink DATA_PATH) (trace w)
     \<and> precedes RunStatiCrypt (Unlink DATA_PATH) (trace w)
     \<and> precedes (Write INDEX_PATH) RunStatiCrypt (trace w)"

definition aborted :: "bytes option \<Rightarrow> stop \<Rightarrow> world \<Rightarrow> bool" where
  "aborted d s w \<longleftrightarrow>
     stopCode s = 1 \<and>
     (if s = Exit (Failed ExternalToolFailed) then toolRan w
      else beforeWrite d w \<or> written w \<or> published w)"

section \<open>HexEncoder: facts\<close>

lemma bindE_Inr [simp]: "bindE (Inr x) f = f x"
  by (simp add: bindE_def)

lemma bindE_Inl [simp]: "bindE (Inl e) f = Inl e"
  by (simp add: bindE_def)

lemma nat_less_16_cases:
  "d < 16 \<Longrightarrow> d \<in> {0, 1, 2, 3, 4, 5, 6, 7, 8, 9, 10, 11, 12, 13, 14, 15::nat}"
  by simp arith

lemma hexDigitValue_hexChar: "d < 16 \<Longrightarrow> hexDigitValue (hexChar d) = Some d"
  by (drule nat_less_16_cases) (elim insertE emptyE; simp add: hexDigitValue_def hexChar_def)

lemma hexChar_not_white: "d < 16 \<Longrightarrow> \<not> isWhiteSpace (hexChar d)"
  by (drule nat_less_16_cases) (elim insertE emptyE; simp add: isWhiteSpace_def hexChar_def)

lemma hexChar_not_sign_or_x:
  "d < 16 \<Longrightarrow> hexChar d \<noteq> 0x2B \<and> hexChar d \<noteq> 0x2D \<and> hexChar d \<noteq> 0x78 \<and> hexChar d \<noteq> 0x58"
  by (drule nat_less_16_cases) (elim insertE emptyE; simp add: hexChar_def)

lemma hexChar_lower: "d < 16 \<Longrightarrow> isLowerHexDigit (hexChar d)"
  by (drule nat_less_16_cases) (elim insertE emptyE; simp add: isLowerHexDigit_def hexChar_def)

lemma parseInt16_hex_pair:
  assumes "h < 16" and "l < 16"
  shows "parseInt16 [hexChar h, hexChar l] = Some (int (h * 16 + l))"
  using assms hexChar_not_white [of h] hexChar_not_sign_or_x [of h] hexChar_not_sign_or_x [of l]
    hexDigitValue_hexChar [of h] hexDigitValue_hexChar [of l]
  by (simp add: parseInt16_def)

lemma unat_byte_less: "unat (b :: byte) < 256"
  using unsigned_less [of b, where ?'a = nat] by simp

lemma unat_of_nat_byte: "n < 256 \<Longrightarrow> unat (of_nat n :: byte) = n"
  by (simp add: unat_of_nat)

lemma stringify_Cons:
  "HexEncoder_stringify (b # bs) =
     hexChar (unat b div 16) # hexChar (unat b mod 16) # HexEncoder_stringify bs"
  by (simp add: toString16_def hexChar_def)

lemma parse_loop_stringify: "parse_loop (HexEncoder_stringify bs) = Inr bs"
proof (induction bs)
  case Nil
  show ?case by simp
next
  case (Cons b bs)
  have "unat b div 16 < 16"
    using unat_byte_less [of b] by simp
  then have "parseInt16 [hexChar (unat b div 16), hexChar (unat b mod 16)] = Some (int (unat b))"
    using parseInt16_hex_pair [of "unat b div 16" "unat b mod 16"] by simp
  with Cons.IH show ?case
    by (simp add: stringify_Cons del: HexEncoder_stringify.simps(2))
qed

lemma length_stringify: "length (HexEncoder_stringify bs) = 2 * length bs"
  by (induction bs) (simp_all add: stringify_Cons del: HexEncoder_stringify.simps(2))

lemma parse_stringify: "HexEncoder_parse (HexEncoder_stringify bs) = Inr bs"
  by (simp add: HexEncoder_parse_def length_stringify parse_loop_stringify)

lemma stringify_inject:
  assumes "HexEncoder_stringify xs = HexEncoder_stringify ys"
  shows "xs = ys"
proof -
  have "Inr xs = HexEncoder_parse (HexEncoder_stringify xs)"
    by (simp add: parse_stringify)
  also have "\<dots> = Inr ys"
    by (simp add: assms parse_stringify)
  finally show ?thesis by simp
qed

lemma stringify_lower_hex: "list_all isLowerHexDigit (HexEncoder_stringify bs)"
proof (induction bs)
  case Nil
  show ?case by simp
next
  case (Cons b bs)
  have "unat b div 16 < 16"
    using unat_byte_less [of b] by simp
  with Cons.IH show ?case
    by (simp add: stringify_Cons hexChar_lower del: HexEncoder_stringify.simps(2))
qed

lemma lowerHex_is_hexChar:
  assumes "isLowerHexDigit c"
  shows "\<exists>d<16. c = hexChar d"
proof -
  from assms consider "48 \<le> unat c \<and> unat c \<le> 57" | "97 \<le> unat c \<and> unat c \<le> 102"
    by (auto simp: isLowerHexDigit_def word_le_nat_alt)
  then show ?thesis
  proof cases
    case 1
    then have "unat c - 48 < 10" and "48 + (unat c - 48) = unat c"
      by arith+
    then have "unat c - 48 < 16" and "c = hexChar (unat c - 48)"
      by (simp_all add: hexChar_def)
    then show ?thesis by blast
  next
    case 2
    then have "\<not> unat c - 87 < 10" and "unat c - 87 < 16" and "97 + (unat c - 87 - 10) = unat c"
      by arith+
    then have "unat c - 87 < 16" and "c = hexChar (unat c - 87)"
      by (simp_all add: hexChar_def)
    then show ?thesis by blast
  qed
qed

lemma lowerHex_string_is_stringify:
  "list_all isLowerHexDigit s \<Longrightarrow> even (length s) \<Longrightarrow>
     \<exists>bs. s = HexEncoder_stringify bs \<and> 2 * length bs = length s"
proof (induction s rule: induct_list012)
  case 1
  show ?case by simp
next
  case (2 a)
  then show ?case by simp
next
  case (3 a b rest)
  then obtain bs where bs: "rest = HexEncoder_stringify bs" "2 * length bs = length rest"
    by auto
  from 3 obtain h l where hl: "h < 16" "a = hexChar h" "l < 16" "b = hexChar l"
    using lowerHex_is_hexChar [of a] lowerHex_is_hexChar [of b] by auto
  have "unat (of_nat (h * 16 + l) :: byte) = h * 16 + l"
    using hl by (intro unat_of_nat_byte) arith
  then have "a # b # rest = HexEncoder_stringify (of_nat (h * 16 + l) # bs)"
    using hl bs by (simp add: stringify_Cons del: HexEncoder_stringify.simps(2))
  moreover have "2 * length (of_nat (h * 16 + l) # bs) = length (a # b # rest)"
    using bs by simp
  ultimately show ?case by blast
qed

lemma derivedKey_parse:
  assumes "isDerivedKey k"
  shows "\<exists>raw. HexEncoder_parse k = Inr raw \<and> length raw = 32"
proof -
  from assms obtain bs where "k = HexEncoder_stringify bs" "2 * length bs = length k"
    using lowerHex_string_is_stringify [of k] by (auto simp: isDerivedKey_def)
  with assms show ?thesis
    by (simp add: parse_stringify isDerivedKey_def)
qed

lemma parse_odd_length: "odd (length s) \<Longrightarrow> HexEncoder_parse s = Inl InvalidHexString"
  by (simp add: HexEncoder_parse_def odd_iff_mod_2_eq_one)

subsection \<open>When \<open>HexEncoder.parse\<close> throws\<close>

lemma sign_not_hex: "hexDigitValue 0x2B = None" "hexDigitValue 0x2D = None"
  by (simp_all add: hexDigitValue_def)

lemma whiteSpace_not_hex: "isWhiteSpace c \<Longrightarrow> hexDigitValue c = None"
  by (auto simp: isWhiteSpace_def hexDigitValue_def word_le_nat_alt)

lemma sign_not_whiteSpace: "\<not> isWhiteSpace 0x2B" "\<not> isWhiteSpace 0x2D"
  by (simp_all add: isWhiteSpace_def)

lemma prefix_not_hex: "hexDigitValue 0x78 = None" "hexDigitValue 0x58 = None"
  by (simp_all add: hexDigitValue_def)

lemma parseInt16_pair_NaN:
  "parseInt16 [a, b] = None \<longleftrightarrow>
     (if isWhiteSpace a \<or> a = 0x2B \<or> a = 0x2D then hexDigitValue b = None
      else hexDigitValue a = None \<or> (a = 0x30 \<and> (b = 0x78 \<or> b = 0x58)))"
proof -
  consider (space) "isWhiteSpace a" | (sign) "a = 0x2B \<or> a = 0x2D"
    | (other) "\<not> isWhiteSpace a" "a \<noteq> 0x2B" "a \<noteq> 0x2D"
    by blast
  then show ?thesis
  proof cases
    case space
    show ?thesis
    proof (cases "hexDigitValue b")
      case None
      with space show ?thesis
        by (simp add: parseInt16_def Let_def)
    next
      case (Some d)
      then have "\<not> isWhiteSpace b" "b \<noteq> 0x2B" "b \<noteq> 0x2D"
        using whiteSpace_not_hex [of b] sign_not_hex by auto
      with space Some show ?thesis
        by (simp add: parseInt16_def Let_def)
    qed
  next
    case sign
    then have "\<not> isWhiteSpace a"
      using sign_not_whiteSpace by auto
    with sign show ?thesis
      by (auto simp: parseInt16_def Let_def)
  next
    case other
    then show ?thesis
      using prefix_not_hex by (auto simp: parseInt16_def Let_def)
  qed
qed

lemma parse_loop_fails_iff:
  "even (length s) \<Longrightarrow>
   parse_loop s = Inl InvalidHexString \<longleftrightarrow>
     (\<exists>i. 2 * i + 1 < length s \<and> parseInt16 [s ! (2 * i), s ! (2 * i + 1)] = None)"
proof (induction s rule: parse_loop.induct)
  case (1 a b rest)
  let ?s = "a # b # rest"
  let ?bad = "\<lambda>t i. 2 * i + 1 < length t \<and> parseInt16 [t ! (2 * i), t ! (2 * i + 1)] = None"
  have shift: "(\<exists>i. ?bad ?s i) \<longleftrightarrow> parseInt16 [a, b] = None \<or> (\<exists>j. ?bad rest j)"
  proof
    assume "\<exists>i. ?bad ?s i"
    then obtain i where i: "?bad ?s i" ..
    show "parseInt16 [a, b] = None \<or> (\<exists>j. ?bad rest j)"
    proof (cases i)
      case 0
      with i show ?thesis by simp
    next
      case (Suc j)
      with i have "?bad rest j" by simp
      then show ?thesis by blast
    qed
  next
    assume "parseInt16 [a, b] = None \<or> (\<exists>j. ?bad rest j)"
    then show "\<exists>i. ?bad ?s i"
    proof
      assume "parseInt16 [a, b] = None"
      then have "?bad ?s 0" by simp
      then show ?thesis ..
    next
      assume "\<exists>j. ?bad rest j"
      then obtain j where "?bad rest j" ..
      then have "?bad ?s (Suc j)" by simp
      then show ?thesis ..
    qed
  qed
  show ?case
  proof (cases "parseInt16 [a, b]")
    case None
    then show ?thesis
      unfolding shift by simp
  next
    case (Some v)
    have "parse_loop ?s = Inl InvalidHexString \<longleftrightarrow> parse_loop rest = Inl InvalidHexString"
      using Some by (cases "parse_loop rest") (simp_all add: bindE_def)
    also have "\<dots> \<longleftrightarrow> (\<exists>j. ?bad rest j)"
      using 1 Some by simp
    finally show ?thesis
      unfolding shift using Some by simp
  qed
next
  case (2 a)
  then show ?case by simp
next
  case 3
  show ?case by simp
qed

lemma parse_fails_iff:
  "HexEncoder_parse s = Inl InvalidHexString \<longleftrightarrow>
     odd (length s)
     \<or> (\<exists>i. 2 * i + 1 < length s \<and> parseInt16 [s ! (2 * i), s ! (2 * i + 1)] = None)"
proof (cases "even (length s)")
  case True
  then show ?thesis
    using parse_loop_fails_iff [of s] by (simp add: HexEncoder_parse_def even_iff_mod_2_eq_zero)
next
  case False
  then show ?thesis
    by (simp add: HexEncoder_parse_def even_iff_mod_2_eq_zero)
qed

section \<open>UTF8Encoder: facts\<close>

lemma unat_codeunit_less: "unat (c :: codeunit) < 65536"
  using unsigned_less [of c, where ?'a = nat] by simp

lemma mod_shift: "q < m \<Longrightarrow> (k * m + q) mod m = (q::nat)"
  by simp

lemma unat_continuation_byte:
  "r < 64 \<Longrightarrow> unat (of_nat (0x80 + r) :: byte) = 0x80 + r"
  by (intro unat_of_nat_byte) arith

lemma decoder_lead2:
  assumes "2 \<le> q" "q < 32"
  shows "utf8Decoder 0 0 0x80 0xBF (of_nat (0xC0 + q) # rest) = utf8Decoder q 1 0x80 0xBF rest"
proof -
  have u: "unat (of_nat (0xC0 + q) :: byte) = 0xC0 + q"
    using assms by (intro unat_of_nat_byte) arith
  have m: "(0xC0 + q) mod 32 = q"
    using assms mod_shift [of q 32 6] by simp
  show ?thesis
    using assms by (subst utf8Decoder.simps) (simp only: u m, simp)
qed

lemma decoder_lead3:
  assumes "q < 16"
  shows "utf8Decoder 0 0 0x80 0xBF (of_nat (0xE0 + q) # rest)
           = utf8Decoder q 2 (if q = 0 then 0xA0 else 0x80) (if q = 13 then 0x9F else 0xBF) rest"
proof -
  have u: "unat (of_nat (0xE0 + q) :: byte) = 0xE0 + q"
    using assms by (intro unat_of_nat_byte) arith
  have m: "(0xE0 + q) mod 16 = q"
    using assms mod_shift [of q 16 14] by simp
  show ?thesis
    using assms by (subst utf8Decoder.simps) (simp only: u m, simp)
qed

lemma decoder_lead4:
  assumes "q \<le> 4"
  shows "utf8Decoder 0 0 0x80 0xBF (of_nat (0xF0 + q) # rest)
           = utf8Decoder q 3 (if q = 0 then 0x90 else 0x80) (if q = 4 then 0x8F else 0xBF) rest"
proof -
  have u: "unat (of_nat (0xF0 + q) :: byte) = 0xF0 + q"
    using assms by (intro unat_of_nat_byte) arith
  have m: "(0xF0 + q) mod 8 = q"
    using assms mod_shift [of q 8 30] by simp
  show ?thesis
    using assms by (subst utf8Decoder.simps) (simp only: u m, simp)
qed

lemma decoder_continue3:
  assumes "r < 64" "lower \<le> 0x80 + r" "0x80 + r \<le> upper"
  shows "utf8Decoder cp 3 lower upper (of_nat (0x80 + r) # rest)
           = utf8Decoder (cp * 64 + r) 2 0x80 0xBF rest"
proof -
  have m: "(0x80 + r) mod 64 = r"
    using assms mod_shift [of r 64 2] by simp
  show ?thesis
    using assms
    by (subst utf8Decoder.simps) (simp only: unat_continuation_byte m, simp)
qed

lemma decoder_continue2:
  assumes "r < 64" "lower \<le> 0x80 + r" "0x80 + r \<le> upper"
  shows "utf8Decoder cp 2 lower upper (of_nat (0x80 + r) # rest)
           = utf8Decoder (cp * 64 + r) 1 0x80 0xBF rest"
proof -
  have m: "(0x80 + r) mod 64 = r"
    using assms mod_shift [of r 64 2] by simp
  show ?thesis
    using assms
    by (subst utf8Decoder.simps) (simp only: unat_continuation_byte m, simp)
qed

lemma decoder_finish:
  assumes "r < 64" "lower \<le> 0x80 + r" "0x80 + r \<le> upper"
  shows "utf8Decoder cp 1 lower upper (of_nat (0x80 + r) # rest)
           = (cp * 64 + r) # utf8Decoder 0 0 0x80 0xBF rest"
proof -
  have m: "(0x80 + r) mod 64 = r"
    using assms mod_shift [of r 64 2] by simp
  show ?thesis
    using assms
    by (subst utf8Decoder.simps) (simp only: unat_continuation_byte m, simp)
qed

text \<open>The six-bit digits of a code point.\<close>

lemma div_4096: "(cp::nat) div 4096 = cp div 64 div 64"
  by (simp add: div_mult2_eq [symmetric])

lemma div_262144: "(cp::nat) div 262144 = cp div 64 div 64 div 64"
  by (simp add: div_mult2_eq [symmetric])

lemma decode_one_byte:
  assumes "cp < 0x80"
  shows "utf8Decoder 0 0 0x80 0xBF (utf8EncodeCodePoint cp @ rest) = cp # utf8Decoder 0 0 0x80 0xBF rest"
proof -
  have "unat (of_nat cp :: byte) = cp"
    using assms by (intro unat_of_nat_byte) arith
  with assms show ?thesis
    by (simp add: utf8EncodeCodePoint_def utf8Decoder.simps)
qed

lemma decode_two_bytes:
  assumes "0x80 \<le> cp" and "cp < 0x800"
  shows "utf8Decoder 0 0 0x80 0xBF (utf8EncodeCodePoint cp @ rest) = cp # utf8Decoder 0 0 0x80 0xBF rest"
proof -
  define q where "q = cp div 64"
  define r where "r = cp mod 64"
  have cp: "cp = q * 64 + r" and r: "r < 64"
    by (simp_all add: q_def r_def)
  have q: "2 \<le> q" "q < 32"
    using assms cp r by linarith+
  have enc: "utf8EncodeCodePoint cp = [of_nat (0xC0 + q), of_nat (0x80 + r)]"
    using assms by (simp add: utf8EncodeCodePoint_def q_def r_def)
  have "utf8Decoder 0 0 0x80 0xBF (utf8EncodeCodePoint cp @ rest)
          = utf8Decoder 0 0 0x80 0xBF (of_nat (0xC0 + q) # of_nat (0x80 + r) # rest)"
    by (simp only: enc append_Cons append_Nil)
  also have "\<dots> = utf8Decoder q 1 0x80 0xBF (of_nat (0x80 + r) # rest)"
    by (rule decoder_lead2 [OF q])
  also have "\<dots> = (q * 64 + r) # utf8Decoder 0 0 0x80 0xBF rest"
    by (rule decoder_finish) (use r in simp_all)
  finally show ?thesis
    by (simp only: cp [symmetric])
qed

lemma decode_three_bytes:
  assumes "0x800 \<le> cp" and "cp < 0x10000" and "\<not> (0xD800 \<le> cp \<and> cp \<le> 0xDFFF)"
  shows "utf8Decoder 0 0 0x80 0xBF (utf8EncodeCodePoint cp @ rest) = cp # utf8Decoder 0 0 0x80 0xBF rest"
proof -
  define x where "x = cp div 64"
  define r2 where "r2 = cp mod 64"
  define q where "q = x div 64"
  define r1 where "r1 = x mod 64"
  define lower :: nat where "lower = (if q = 0 then 0xA0 else 0x80)"
  define upper :: nat where "upper = (if q = 13 then 0x9F else 0xBF)"
  have cp: "cp = x * 64 + r2" and r2: "r2 < 64"
    by (simp_all add: x_def r2_def)
  have x: "x = q * 64 + r1" and r1: "r1 < 64"
    by (simp_all add: q_def r1_def)
  have q: "q < 16"
    using assms cp x r1 r2 by linarith
  have lo: "q = 0 \<Longrightarrow> 32 \<le> r1"
    using assms cp x r1 r2 by linarith
  have hi: "q = 13 \<Longrightarrow> r1 < 32"
    using assms cp x r1 r2 by linarith
  have bounds: "lower \<le> 0x80 + r1" "0x80 + r1 \<le> upper"
    using lo hi r1 by (auto simp: lower_def upper_def)
  have enc: "utf8EncodeCodePoint cp = [of_nat (0xE0 + q), of_nat (0x80 + r1), of_nat (0x80 + r2)]"
    using assms by (simp add: utf8EncodeCodePoint_def div_4096 q_def r1_def r2_def x_def)
  have "utf8Decoder 0 0 0x80 0xBF (utf8EncodeCodePoint cp @ rest)
          = utf8Decoder 0 0 0x80 0xBF
              (of_nat (0xE0 + q) # of_nat (0x80 + r1) # of_nat (0x80 + r2) # rest)"
    by (simp only: enc append_Cons append_Nil)
  also have "\<dots> = utf8Decoder q 2 lower upper (of_nat (0x80 + r1) # of_nat (0x80 + r2) # rest)"
    unfolding lower_def upper_def by (rule decoder_lead3 [OF q])
  also have "\<dots> = utf8Decoder (q * 64 + r1) 1 0x80 0xBF (of_nat (0x80 + r2) # rest)"
    by (rule decoder_continue2 [OF r1 bounds])
  also have "\<dots> = ((q * 64 + r1) * 64 + r2) # utf8Decoder 0 0 0x80 0xBF rest"
    by (rule decoder_finish) (use r2 in simp_all)
  finally show ?thesis
    by (simp only: cp [symmetric] x [symmetric])
qed

lemma decode_four_bytes:
  assumes "0x10000 \<le> cp" and "cp < 0x110000"
  shows "utf8Decoder 0 0 0x80 0xBF (utf8EncodeCodePoint cp @ rest) = cp # utf8Decoder 0 0 0x80 0xBF rest"
proof -
  define x where "x = cp div 64"
  define r3 where "r3 = cp mod 64"
  define y where "y = x div 64"
  define r2 where "r2 = x mod 64"
  define q where "q = y div 64"
  define r1 where "r1 = y mod 64"
  define lower :: nat where "lower = (if q = 0 then 0x90 else 0x80)"
  define upper :: nat where "upper = (if q = 4 then 0x8F else 0xBF)"
  have cp: "cp = x * 64 + r3" and r3: "r3 < 64"
    by (simp_all add: x_def r3_def)
  have x: "x = y * 64 + r2" and r2: "r2 < 64"
    by (simp_all add: y_def r2_def)
  have y: "y = q * 64 + r1" and r1: "r1 < 64"
    by (simp_all add: q_def r1_def)
  have q: "q \<le> 4"
    using assms cp x y r1 r2 r3 by linarith
  have lo: "q = 0 \<Longrightarrow> 16 \<le> r1"
    using assms cp x y r1 r2 r3 by linarith
  have hi: "q = 4 \<Longrightarrow> r1 < 16"
    using assms cp x y r1 r2 r3 by linarith
  have bounds: "lower \<le> 0x80 + r1" "0x80 + r1 \<le> upper"
    using lo hi r1 by (auto simp: lower_def upper_def)
  have enc: "utf8EncodeCodePoint cp =
          [of_nat (0xF0 + q), of_nat (0x80 + r1), of_nat (0x80 + r2), of_nat (0x80 + r3)]"
    using assms
    by (simp add: utf8EncodeCodePoint_def div_4096 div_262144 q_def r1_def r2_def r3_def x_def y_def)
  have "utf8Decoder 0 0 0x80 0xBF (utf8EncodeCodePoint cp @ rest)
          = utf8Decoder 0 0 0x80 0xBF
              (of_nat (0xF0 + q) # of_nat (0x80 + r1) # of_nat (0x80 + r2) # of_nat (0x80 + r3) # rest)"
    by (simp only: enc append_Cons append_Nil)
  also have "\<dots> = utf8Decoder q 3 lower upper
                      (of_nat (0x80 + r1) # of_nat (0x80 + r2) # of_nat (0x80 + r3) # rest)"
    unfolding lower_def upper_def by (rule decoder_lead4 [OF q])
  also have "\<dots> = utf8Decoder (q * 64 + r1) 2 0x80 0xBF
                      (of_nat (0x80 + r2) # of_nat (0x80 + r3) # rest)"
    by (rule decoder_continue3 [OF r1 bounds])
  also have "\<dots> = utf8Decoder ((q * 64 + r1) * 64 + r2) 1 0x80 0xBF (of_nat (0x80 + r3) # rest)"
    by (rule decoder_continue2) (use r2 in simp_all)
  also have "\<dots> = (((q * 64 + r1) * 64 + r2) * 64 + r3) # utf8Decoder 0 0 0x80 0xBF rest"
    by (rule decoder_finish) (use r3 in simp_all)
  finally show ?thesis
    by (simp only: cp [symmetric] x [symmetric] y [symmetric])
qed

lemma decode_scalar:
  assumes "isScalarValue cp"
  shows "utf8Decoder 0 0 0x80 0xBF (utf8EncodeCodePoint cp @ rest) = cp # utf8Decoder 0 0 0x80 0xBF rest"
proof -
  consider "cp < 0x80" | "0x80 \<le> cp \<and> cp < 0x800" | "0x800 \<le> cp \<and> cp < 0x10000" | "0x10000 \<le> cp"
    by linarith
  then show ?thesis
  proof cases
    case 1
    then show ?thesis by (rule decode_one_byte)
  next
    case 2
    then show ?thesis by (simp add: decode_two_bytes)
  next
    case 3
    with assms show ?thesis by (simp add: decode_three_bytes isScalarValue_def)
  next
    case 4
    with assms show ?thesis by (simp add: decode_four_bytes isScalarValue_def)
  qed
qed

lemma decode_encoded_scalars:
  "list_all isScalarValue cps \<Longrightarrow>
     utf8Decoder 0 0 0x80 0xBF (concat (map utf8EncodeCodePoint cps)) = cps"
  by (induction cps) (simp_all add: decode_scalar utf8Decoder.simps(1))

lemma scalarValues_scalar: "list_all isScalarValue (scalarValues s)"
proof (induction s rule: scalarValues.induct)
  case 1
  show ?case by simp
next
  case (2 c)
  show ?case
    using unat_codeunit_less [of c]
    by (simp add: isScalarValue_def isHighSurrogate_def isLowSurrogate_def) linarith
next
  case (3 c d cs)
  have "isHighSurrogate c \<Longrightarrow> isLowSurrogate d \<Longrightarrow>
          isScalarValue (0x10000 + (unat c - 0xD800) * 0x400 + (unat d - 0xDC00))"
    unfolding isScalarValue_def isHighSurrogate_def isLowSurrogate_def by linarith
  moreover have "\<not> isHighSurrogate c \<Longrightarrow> \<not> isLowSurrogate c \<Longrightarrow> isScalarValue (unat c)"
    using unat_codeunit_less [of c]
    unfolding isScalarValue_def isHighSurrogate_def isLowSurrogate_def by linarith
  moreover have "isScalarValue 0xFFFD"
    by (simp add: isScalarValue_def)
  ultimately show ?case
    using 3 by auto
qed

lemma codeunit_of_unat: "of_nat (unat (c :: codeunit)) = c"
  by simp

lemma utf16_of_bmp:
  assumes "\<not> isHighSurrogate c" "\<not> isLowSurrogate c"
  shows "utf16CodeUnits (unat c) = [c]"
  using unat_codeunit_less [of c] by (simp add: utf16CodeUnits_def)

lemma utf16_of_pair:
  assumes "isHighSurrogate c" "isLowSurrogate d"
  shows "utf16CodeUnits (0x10000 + (unat c - 0xD800) * 0x400 + (unat d - 0xDC00)) = [c, d]"
proof -
  define h where "h = unat c - 0xD800"
  define l where "l = unat d - 0xDC00"
  have h: "0xD800 + h = unat c" and l: "0xDC00 + l = unat d" "l < 0x400"
    using assms unfolding h_def l_def isHighSurrogate_def isLowSurrogate_def by linarith+
  have "(h * 0x400 + l) div 0x400 = h" "(h * 0x400 + l) mod 0x400 = l"
    using l by simp_all
  then have "utf16CodeUnits (0x10000 + h * 0x400 + l) = [of_nat (0xD800 + h), of_nat (0xDC00 + l)]"
    by (simp add: utf16CodeUnits_def del: of_nat_add)
  then show ?thesis
    unfolding h l by (simp add: h_def l_def)
qed

lemma utf16_roundtrip:
  "isWellFormed s \<Longrightarrow> concat (map utf16CodeUnits (scalarValues s)) = s"
proof (induction s rule: scalarValues.induct)
  case 1
  show ?case by simp
next
  case (2 c)
  then show ?case by (simp add: utf16_of_bmp)
next
  case (3 c d cs)
  show ?case
  proof (cases "isHighSurrogate c")
    case True
    with 3 show ?thesis by (simp add: utf16_of_pair)
  next
    case False
    with 3 show ?thesis by (simp add: utf16_of_bmp)
  qed
qed

lemma decode_parse: "utf8Decoder 0 0 0x80 0xBF (UTF8Encoder_parse s) = scalarValues s"
  by (simp add: UTF8Encoder_parse_def decode_encoded_scalars scalarValues_scalar)

lemma utf8Decode_parse: "isWellFormed s \<Longrightarrow> utf8Decode (UTF8Encoder_parse s) = s"
  by (simp add: utf8Decode_def decode_parse utf16_roundtrip)

lemma stripBOM_changes: "stripBOM bs \<noteq> bs \<Longrightarrow> \<exists>rest. bs = 0xEF # 0xBB # 0xBF # rest"
  by (cases bs rule: stripBOM.cases) (auto split: if_splits)

lemma encode_BOM: "utf8EncodeCodePoint 0xFEFF = [0xEF, 0xBB, 0xBF]"
  by (simp add: utf8EncodeCodePoint_def)

lemma decode_BOM:
  "utf8Decoder 0 0 0x80 0xBF (0xEF # 0xBB # 0xBF # rest) = 0xFEFF # utf8Decoder 0 0 0x80 0xBF rest"
  using decode_three_bytes [of "0xFEFF" rest] by (simp add: encode_BOM)

lemma parse_no_BOM:
  assumes "isWellFormed s" and "\<not> startsWithBOM s"
  shows "stripBOM (UTF8Encoder_parse s) = UTF8Encoder_parse s"
proof (rule ccontr)
  assume "stripBOM (UTF8Encoder_parse s) \<noteq> UTF8Encoder_parse s"
  then obtain rest where "UTF8Encoder_parse s = 0xEF # 0xBB # 0xBF # rest"
    using stripBOM_changes by blast
  then have "scalarValues s = 0xFEFF # utf8Decoder 0 0 0x80 0xBF rest"
    using decode_parse [of s] by (simp add: decode_BOM)
  then have "concat (map utf16CodeUnits (scalarValues s))
               = 0xFEFF # concat (map utf16CodeUnits (utf8Decoder 0 0 0x80 0xBF rest))"
    by (simp add: utf16CodeUnits_def)
  with assms(1) have "startsWithBOM s"
    by (simp add: utf16_roundtrip startsWithBOM_def split: list.splits)
  with assms(2) show False by simp
qed

lemma UTF8_roundtrip:
  assumes "isWellFormed s" and "\<not> startsWithBOM s"
  shows "UTF8Encoder_stringify (UTF8Encoder_parse s) = s"
  using assms by (simp add: UTF8Encoder_stringify_def parse_no_BOM utf8Decode_parse)

lemma UTF8_drops_BOM:
  assumes "isWellFormed s"
  shows "UTF8Encoder_stringify (UTF8Encoder_parse (0xFEFF # s)) = s"
proof -
  have "\<not> isHighSurrogate 0xFEFF" "\<not> isLowSurrogate 0xFEFF"
    by (simp_all add: isHighSurrogate_def isLowSurrogate_def)
  then have "scalarValues (0xFEFF # s) = 0xFEFF # scalarValues s"
    by (cases s) simp_all
  then have "UTF8Encoder_parse (0xFEFF # s) = 0xEF # 0xBB # 0xBF # UTF8Encoder_parse s"
    by (simp add: UTF8Encoder_parse_def encode_BOM)
  with assms show ?thesis
    by (simp add: UTF8Encoder_stringify_def utf8Decode_parse)
qed

text \<open>A string of ASCII characters is encoded unit by unit.\<close>

lemma parse_ascii:
  "list_all (\<lambda>c. unat c < 0x80) s \<Longrightarrow> UTF8Encoder_parse s = map (\<lambda>c. of_nat (unat c)) s"
proof (induction s rule: scalarValues.induct)
  case 1
  show ?case by (simp add: UTF8Encoder_parse_def)
next
  case (2 c)
  then show ?case
    by (simp add: UTF8Encoder_parse_def utf8EncodeCodePoint_def isHighSurrogate_def isLowSurrogate_def)
next
  case (3 c d cs)
  then have "\<not> isHighSurrogate c" "\<not> isLowSurrogate c" "unat c < 0x80"
    by (simp_all add: isHighSurrogate_def isLowSurrogate_def)
  with 3 show ?case
    by (simp add: UTF8Encoder_parse_def utf8EncodeCodePoint_def)
qed

lemma lowerHex_ascii: "isLowerHexDigit c \<Longrightarrow> unat c < 0x80"
  by (auto simp: isLowerHexDigit_def word_le_nat_alt)

lemma parse_hex_string:
  "UTF8Encoder_parse (HexEncoder_stringify bs) = map (\<lambda>c. of_nat (unat c)) (HexEncoder_stringify bs)"
proof (rule parse_ascii)
  show "list_all (\<lambda>c. unat c < 0x80) (HexEncoder_stringify bs)"
    using stringify_lower_hex [of bs] by (auto simp: list_all_iff lowerHex_ascii)
qed

lemma wellFormed_ascii: "list_all (\<lambda>c. unat c < 0x80) s \<Longrightarrow> isWellFormed s"
proof (induction s rule: isWellFormed.induct)
  case 1
  show ?case by simp
next
  case (2 c)
  then show ?case by (simp add: isHighSurrogate_def isLowSurrogate_def)
next
  case (3 c d cs)
  then show ?case by (simp add: isHighSurrogate_def isLowSurrogate_def)
qed

subsection \<open>The strings that encoding and decoding give back\<close>

lemma normalize_length: "length (concat (map utf16CodeUnits (scalarValues s))) = length s"
proof (induction s rule: scalarValues.induct)
  case 1
  show ?case by simp
next
  case (2 c)
  show ?case
    using unat_codeunit_less [of c] by (simp add: utf16CodeUnits_def)
next
  case (3 c d cs)
  have "length (utf16CodeUnits (unat c)) = 1"
    using unat_codeunit_less [of c] by (simp add: utf16CodeUnits_def)
  with 3 show ?case
    by (auto simp: utf16CodeUnits_def)
qed

lemma surrogate_not_replacement:
  "isHighSurrogate c \<or> isLowSurrogate c \<Longrightarrow> c \<noteq> 0xFFFD"
  by (auto simp: isHighSurrogate_def isLowSurrogate_def)

lemma normalize_fixed_iff:
  "concat (map utf16CodeUnits (scalarValues s)) = s \<longleftrightarrow> isWellFormed s"
proof (induction s rule: scalarValues.induct)
  case 1
  show ?case by simp
next
  case (2 c)
  show ?case
  proof (cases "isHighSurrogate c \<or> isLowSurrogate c")
    case True
    then have "c \<noteq> 0xFFFD"
      by (rule surrogate_not_replacement)
    with True show ?thesis
      by (auto simp: utf16CodeUnits_def)
  next
    case False
    then show ?thesis by (simp add: utf16_of_bmp)
  qed
next
  case (3 c d cs)
  consider (pair) "isHighSurrogate c" "isLowSurrogate d"
    | (lone) "\<not> (isHighSurrogate c \<and> isLowSurrogate d)" "isHighSurrogate c \<or> isLowSurrogate c"
    | (bmp) "\<not> isHighSurrogate c" "\<not> isLowSurrogate c"
    by blast
  then show ?case
  proof cases
    case pair
    with 3 show ?thesis by (simp add: utf16_of_pair)
  next
    case lone
    then have "c \<noteq> 0xFFFD"
      using surrogate_not_replacement by blast
    with lone show ?thesis
      by (auto simp: utf16CodeUnits_def)
  next
    case bmp
    with 3 show ?thesis by (simp add: utf16_of_bmp)
  qed
qed

lemma scalarValues_BOM:
  "scalarValues s = 0xFEFF # rest \<Longrightarrow> startsWithBOM s"
proof (cases s rule: scalarValues.cases)
  case 1
  then show "scalarValues s = 0xFEFF # rest \<Longrightarrow> startsWithBOM s" by simp
next
  case (2 c)
  assume "scalarValues s = 0xFEFF # rest"
  with 2 have "unat c = 0xFEFF"
    by (simp split: if_splits)
  then have "c = 0xFEFF"
    by (metis codeunit_of_unat of_nat_numeral)
  with 2 show "startsWithBOM s" by (simp add: startsWithBOM_def)
next
  case (3 c d cs)
  assume "scalarValues s = 0xFEFF # rest"
  with 3 have "unat c = 0xFEFF"
    by (simp add: isHighSurrogate_def isLowSurrogate_def split: if_splits)
  then have "c = 0xFEFF"
    by (metis codeunit_of_unat of_nat_numeral)
  with 3 show "startsWithBOM s" by (simp add: startsWithBOM_def)
qed

lemma parse_keeps_no_BOM:
  assumes "\<not> startsWithBOM s"
  shows "stripBOM (UTF8Encoder_parse s) = UTF8Encoder_parse s"
proof (rule ccontr)
  assume "stripBOM (UTF8Encoder_parse s) \<noteq> UTF8Encoder_parse s"
  then obtain rest where "UTF8Encoder_parse s = 0xEF # 0xBB # 0xBF # rest"
    using stripBOM_changes by blast
  then have "scalarValues s = 0xFEFF # utf8Decoder 0 0 0x80 0xBF rest"
    using decode_parse [of s] by (simp add: decode_BOM)
  with assms show False
    using scalarValues_BOM by blast
qed

lemma parse_BOM_Cons: "UTF8Encoder_parse (0xFEFF # s) = 0xEF # 0xBB # 0xBF # UTF8Encoder_parse s"
proof -
  have "\<not> isHighSurrogate 0xFEFF" "\<not> isLowSurrogate 0xFEFF"
    by (simp_all add: isHighSurrogate_def isLowSurrogate_def)
  then have "scalarValues (0xFEFF # s) = 0xFEFF # scalarValues s"
    by (cases s) simp_all
  then show ?thesis
    by (simp add: UTF8Encoder_parse_def encode_BOM)
qed

lemma UTF8_roundtrip_iff:
  "UTF8Encoder_stringify (UTF8Encoder_parse s) = s \<longleftrightarrow> isWellFormed s \<and> \<not> startsWithBOM s"
proof (cases "startsWithBOM s")
  case True
  then obtain t where s: "s = 0xFEFF # t"
    by (cases s) (simp_all add: startsWithBOM_def)
  have "length (UTF8Encoder_stringify (UTF8Encoder_parse s)) = length t"
    by (simp add: s parse_BOM_Cons UTF8Encoder_stringify_def utf8Decode_def decode_parse
          normalize_length)
  then have "UTF8Encoder_stringify (UTF8Encoder_parse s) \<noteq> s"
    using s by auto
  with True show ?thesis by simp
next
  case False
  then show ?thesis
    by (simp add: UTF8Encoder_stringify_def parse_keeps_no_BOM utf8Decode_def decode_parse
          normalize_fixed_iff)
qed

section \<open>AES-CBC: facts\<close>

lemma xorBlock_length: "length (xorBlock a b) = min (length a) (length b)"
  by (simp add: xorBlock_def)

lemma xorBlock_cancel: "length a = length b \<Longrightarrow> xorBlock a (xorBlock a b) = b"
  unfolding xorBlock_def
proof (induction a b rule: list_induct2)
  case Nil
  show ?case by simp
next
  case (Cons x xs y ys)
  have "x XOR (x XOR y) = y"
    by (simp add: xor.assoc [symmetric])
  with Cons show ?case by simp
qed

lemma concat_blocks16: "concat (blocks16 bs) = bs"
proof (induction bs rule: blocks16.induct)
  case (1 bs)
  show ?case
  proof (cases "bs = []")
    case True
    then show ?thesis by (simp add: blocks16.simps)
  next
    case False
    with 1 show ?thesis
      by (subst blocks16.simps) simp
  qed
qed

lemma blocks16_lengths:
  "length bs mod 16 = 0 \<Longrightarrow> list_all (\<lambda>b. length b = 16) (blocks16 bs)"
proof (induction bs rule: blocks16.induct)
  case (1 bs)
  show ?case
  proof (cases "bs = []")
    case True
    then show ?thesis by (simp add: blocks16.simps)
  next
    case False
    with "1.prems" have len: "16 \<le> length bs"
      by (cases "length bs < 16") auto
    then have "length (drop 16 bs) mod 16 = 0"
      using "1.prems" le_mod_geq [of 16 "length bs"] by simp
    with 1 False len show ?thesis
      by (subst blocks16.simps) simp
  qed
qed

lemma blocks16_concat:
  "list_all (\<lambda>b. length b = 16) bl \<Longrightarrow> blocks16 (concat bl) = bl"
proof (induction bl)
  case Nil
  show ?case by (simp add: blocks16.simps)
next
  case (Cons b bl)
  then have "b \<noteq> []" "length b = 16"
    by auto
  with Cons show ?case
    by (subst blocks16.simps) simp
qed

lemma cbcEncrypt_lengths:
  assumes "\<And>b. length b = 16 \<Longrightarrow> length (Ek b) = 16"
  shows "length prev = 16 \<Longrightarrow> list_all (\<lambda>b. length b = 16) ps \<Longrightarrow>
           list_all (\<lambda>b. length b = 16) (cbcEncryptBlocks Ek prev ps)"
proof (induction ps arbitrary: prev)
  case Nil
  show ?case by simp
next
  case (Cons p ps)
  then have "length (Ek (xorBlock prev p)) = 16"
    by (simp add: assms xorBlock_length)
  with Cons show ?case
    by (simp add: Let_def)
qed

lemma cbcEncrypt_length: "length (cbcEncryptBlocks Ek prev ps) = length ps"
  by (induction ps arbitrary: prev) (simp_all add: Let_def)

lemma cbc_roundtrip:
  assumes "\<And>b. length b = 16 \<Longrightarrow> length (Ek b) = 16 \<and> Dk (Ek b) = b"
  shows "length prev = 16 \<Longrightarrow> list_all (\<lambda>b. length b = 16) ps \<Longrightarrow>
           cbcDecryptBlocks Dk prev (cbcEncryptBlocks Ek prev ps) = ps"
proof (induction ps arbitrary: prev)
  case Nil
  show ?case by simp
next
  case (Cons p ps)
  then have len: "length (xorBlock prev p) = 16"
    by (simp add: xorBlock_length)
  then have "Dk (Ek (xorBlock prev p)) = xorBlock prev p" "length (Ek (xorBlock prev p)) = 16"
    using assms by simp_all
  with Cons show ?case
    by (simp add: Let_def xorBlock_cancel)
qed

lemma pkcs7Pad_length: "length (pkcs7Pad data) mod 16 = 0"
proof -
  have "length data mod 16 < 16" by simp
  then have "(length data + (16 - length data mod 16)) mod 16 = 0"
    by (metis add_diff_inverse_nat less_imp_le_nat mod_add_left_eq mod_self not_less
        add.commute mod_add_self2 mod_mod_trivial)
  then show ?thesis
    by (simp add: pkcs7Pad_def Let_def)
qed

lemma pkcs7Pad_nonempty: "pkcs7Pad data \<noteq> []"
proof -
  have "length data mod 16 < 16" by simp
  then have "0 < 16 - length data mod 16" by simp
  then show ?thesis
    by (auto simp: pkcs7Pad_def Let_def)
qed

lemma pkcs7_roundtrip: "pkcs7Unpad (pkcs7Pad data) = Inr data"
proof -
  define n where "n = 16 - length data mod 16"
  have n: "0 < n" "n \<le> 16"
    using mod_less_divisor [of 16 "length data"] by (simp_all add: n_def)
  have pad: "pkcs7Pad data = data @ replicate n (of_nat n)"
    by (simp add: pkcs7Pad_def n_def)
  have last: "last (pkcs7Pad data) = of_nat n"
    using n by (simp add: pad)
  have un: "unat (of_nat n :: byte) = n"
    using n by (intro unat_of_nat_byte) arith
  show ?thesis
    using n by (simp add: pkcs7Unpad_def last un Let_def) (simp add: pad)
qed

lemma subtle_roundtrip:
  assumes "blockCipher P" and "length iv = 16"
  shows "\<exists>ct. subtleEncrypt P iv key data = Inr ct \<and> subtleDecrypt P iv key ct = Inr data
            \<and> length ct = 16 * (length data div 16 + 1)"
proof -
  define ps where "ps = blocks16 (pkcs7Pad data)"
  define cs where "cs = cbcEncryptBlocks (aesEncryptBlock P key) iv ps"
  have E: "\<And>b. length b = 16 \<Longrightarrow>
             length (aesEncryptBlock P key b) = 16 \<and>
             aesDecryptBlock P key (aesEncryptBlock P key b) = b"
    using assms(1) by (simp add: blockCipher_def)
  have ps: "list_all (\<lambda>b. length b = 16) ps"
    unfolding ps_def by (rule blocks16_lengths [OF pkcs7Pad_length])
  have cs: "list_all (\<lambda>b. length b = 16) cs"
    unfolding cs_def using E assms(2) ps by (intro cbcEncrypt_lengths) simp_all
  have enc: "subtleEncrypt P iv key data = Inr (concat cs)"
    using assms(2) by (simp add: subtleEncrypt_def cs_def ps_def)
  have "ps \<noteq> []"
    using pkcs7Pad_nonempty [of data] concat_blocks16 [of "pkcs7Pad data"]
    by (auto simp: ps_def)
  then have "cs \<noteq> []"
    using cbcEncrypt_length [of "aesEncryptBlock P key" iv ps] by (auto simp: cs_def)
  have len_concat: "length (concat bl) = 16 * length bl" if "list_all (\<lambda>b. length b = 16) bl" for bl :: "bytes list"
    using that by (induction bl) simp_all
  have "length (concat cs) \<noteq> 0"
    using \<open>cs \<noteq> []\<close> len_concat [OF cs] by simp
  then have nonempty: "concat cs \<noteq> []"
    by auto
  have "cbcDecryptBlocks (aesDecryptBlock P key) iv cs = ps"
    unfolding cs_def using E assms(2) ps by (intro cbc_roundtrip) simp_all
  then have dec: "subtleDecrypt P iv key (concat cs) = Inr data"
    using assms(2) nonempty len_concat [OF cs]
    by (simp add: subtleDecrypt_def blocks16_concat [OF cs] ps_def concat_blocks16 pkcs7_roundtrip)
  have "16 * length ps = length (pkcs7Pad data)"
    using len_concat [OF ps] by (simp add: ps_def concat_blocks16)
  moreover have "length (pkcs7Pad data) = 16 * (length data div 16 + 1)"
  proof -
    define q where "q = length data div 16"
    define r where "r = length data mod 16"
    have "length data = 16 * q + r" and "r < 16"
      by (simp_all add: q_def r_def)
    moreover have "length (pkcs7Pad data) = length data + (16 - r)"
      by (simp add: pkcs7Pad_def Let_def r_def)
    ultimately have "length (pkcs7Pad data) = 16 * (q + 1)"
      by simp
    then show ?thesis
      by (simp only: q_def)
  qed
  ultimately have "length (concat cs) = 16 * (length data div 16 + 1)"
    using len_concat [OF cs] cbcEncrypt_length [of "aesEncryptBlock P key" iv ps]
    by (simp add: cs_def)
  with enc dec show ?thesis by blast
qed

section \<open>Key derivation: facts\<close>

lemma stringify_derivedKey: "length bs = 32 \<Longrightarrow> isDerivedKey (HexEncoder_stringify bs)"
  by (simp add: isDerivedKey_def length_stringify stringify_lower_hex)

lemma pbkdf2_derivedKey: "derives256 P \<Longrightarrow> isDerivedKey (pbkdf2 P password salt n h)"
  by (simp add: pbkdf2_def derives256_def stringify_derivedKey)

lemma hashPassword_derivedKey: "derives256 P \<Longrightarrow> isDerivedKey (hashPassword P password salt)"
  by (simp add: hashPassword_def pbkdf2_derivedKey)

lemma pbkdf2_of_hex:
  "pbkdf2 P (HexEncoder_stringify bs) salt n h =
     HexEncoder_stringify
       (deriveBits P h n (UTF8Encoder_parse salt) (asciiBytes (HexEncoder_stringify bs)) 256)"
  by (simp add: pbkdf2_def parse_hex_string asciiBytes_def)

section \<open>The cipher wrapper: facts\<close>

lemma derivedKey_import:
  assumes "isDerivedKey key"
  shows "\<exists>raw. HexEncoder_parse key = Inr raw \<and> importKey raw = Inr raw \<and> length raw = 32"
proof -
  obtain raw where "HexEncoder_parse key = Inr raw" and "length raw = 32"
    using derivedKey_parse [OF assms] by blast
  moreover from this have "importKey raw = Inr raw"
    by (simp add: importKey_def)
  ultimately show ?thesis by blast
qed

lemma take_artifact:
  "length iv = 16 \<Longrightarrow> take ivLength (HexEncoder_stringify iv @ rest) = HexEncoder_stringify iv"
  by (simp add: ivLength_def length_stringify)

lemma drop_artifact:
  "length iv = 16 \<Longrightarrow> drop ivLength (HexEncoder_stringify iv @ rest) = rest"
  by (simp add: ivLength_def length_stringify)

lemma encrypt_value:
  assumes "length iv = 16" and "HexEncoder_parse key = Inr raw" and "importKey raw = Inr raw"
    and "subtleEncrypt P iv raw (UTF8Encoder_parse msg) = Inr ct"
  shows "encrypt P iv msg key = Inr (HexEncoder_stringify iv @ HexEncoder_stringify ct)"
  using assms by (simp add: encrypt_def)

lemma decrypt_value:
  assumes "length iv = 16" and "HexEncoder_parse key = Inr raw" and "importKey raw = Inr raw"
    and "subtleDecrypt P iv raw ct = Inr out"
  shows "decrypt P (HexEncoder_stringify iv @ HexEncoder_stringify ct) key
           = Inr (UTF8Encoder_stringify out)"
  using assms
  by (simp add: decrypt_def take_artifact drop_artifact parse_stringify
        del: take_append drop_append)

lemma decrypt_encrypt:
  assumes "blockCipher P" and "length iv = 16" and "isDerivedKey key"
  shows "\<exists>ct. encrypt P iv msg key = Inr (HexEncoder_stringify iv @ HexEncoder_stringify ct)
            \<and> decrypt P (HexEncoder_stringify iv @ HexEncoder_stringify ct) key
                 = Inr (UTF8Encoder_stringify (UTF8Encoder_parse msg))
            \<and> length ct = 16 * (length (UTF8Encoder_parse msg) div 16 + 1)"
proof -
  obtain raw where raw: "HexEncoder_parse key = Inr raw" "importKey raw = Inr raw"
    using derivedKey_import [OF assms(3)] by blast
  obtain ct where ct: "subtleEncrypt P iv raw (UTF8Encoder_parse msg) = Inr ct"
      "subtleDecrypt P iv raw ct = Inr (UTF8Encoder_parse msg)"
      "length ct = 16 * (length (UTF8Encoder_parse msg) div 16 + 1)"
    using subtle_roundtrip [OF assms(1,2), of raw "UTF8Encoder_parse msg"] by blast
  show ?thesis
    using encrypt_value [OF assms(2) raw ct(1)] decrypt_value [OF assms(2) raw ct(2)] ct(3)
    by blast
qed

lemma xorPlatform_blockCipher: "blockCipher xorPlatform"
  by (auto simp: blockCipher_def xorPlatform_def xorBlock_length xorBlock_cancel min_def)

lemma xorPlatform_derives256: "derives256 xorPlatform"
  by (auto simp: derives256_def xorPlatform_def min_def)

lemma roundTrip_value:
  assumes "blockCipher P" and "length iv = 16" and "isDerivedKey key"
  shows "roundTrip P iv msg key = Inr (UTF8Encoder_stringify (UTF8Encoder_parse msg))"
  using decrypt_encrypt [OF assms, of msg] by (auto simp: roundTrip_def)

lemma roundTrip_returns_plaintext_iff:
  assumes "blockCipher P" and "length iv = 16" and "isDerivedKey key"
  shows "roundTrip P iv msg key = Inr msg \<longleftrightarrow> isWellFormed msg \<and> \<not> startsWithBOM msg"
  using roundTrip_value [OF assms, of msg] by (simp add: UTF8_roundtrip_iff)

section \<open>The claims about the cipher and the key derivation\<close>

text \<open>
  Claim C1, as amended.  Let the platform's AES be a block cipher and its PBKDF2 return
  the 256 bits asked for.  For every password, every salt, every 16-byte IV and every
  plaintext that is well-formed UTF-16 (no lone surrogate) and does not begin with
  U+FEFF, encrypting under the derived key and decrypting the result with the same key
  returns the plaintext exactly.
\<close>

theorem roundTrip_derived_key:
  assumes "blockCipher P" and "derives256 P" and "length iv = 16"
    and "isWellFormed plaintext" and "\<not> startsWithBOM plaintext"
  shows "roundTrip P iv plaintext (hashPassword P password salt) = Inr plaintext"
  using roundTrip_value [OF assms(1,3) hashPassword_derivedKey [OF assms(2)]] assms(4,5)
  by (simp add: UTF8_roundtrip)

text \<open>The theorem at the plaintext \<open>{"a":1}\<close>, on the stand-in platform.\<close>

theorem roundTrip_derived_key_witness:
  "roundTrip xorPlatform sampleIV [0x7B, 0x22, 0x61, 0x22, 0x3A, 0x31, 0x7D]
     (hashPassword xorPlatform samplePassword sampleSalt)
   = Inr [0x7B, 0x22, 0x61, 0x22, 0x3A, 0x31, 0x7D]"
  using roundTrip_derived_key [OF xorPlatform_blockCipher xorPlatform_derives256,
      of sampleIV "[0x7B, 0x22, 0x61, 0x22, 0x3A, 0x31, 0x7D]" samplePassword sampleSalt]
  by (simp add: sampleIV_def startsWithBOM_def isHighSurrogate_def isLowSurrogate_def)

text \<open>
  As stated, for every plaintext, C1 fails: the text decoder drops a leading byte order
  mark, so the one-character plaintext U+FEFF comes back as the empty string.
\<close>

theorem roundTrip_BOM_counterexample:
  "roundTrip xorPlatform sampleIV [0xFEFF]
     (hashPassword xorPlatform samplePassword sampleSalt) = Inr []"
  using roundTrip_value [OF xorPlatform_blockCipher _
      hashPassword_derivedKey [OF xorPlatform_derives256], of sampleIV "[0xFEFF]"]
    UTF8_drops_BOM [of "[]"]
  by (simp add: sampleIV_def)

text \<open>
  Claim C2.  For every password and salt, \<open>hashPassword\<close> is three chained PBKDF2
  passes over the same salt: 1000 iterations of SHA-1 on the password, 14000 iterations
  of SHA-256 on the hex string of pass 1, 585000 iterations of SHA-256 on the hex string
  of pass 2.  Each pass yields 256 bits written as 64 lower-case hex digits, the next
  pass reads that string as text (its 64 ASCII bytes, not the 32 bytes it encodes), and
  the hex string of pass 3 is the derived key.
\<close>

theorem hashPassword_three_passes:
  assumes "derives256 P"
  shows "let saltBytes = UTF8Encoder_parse salt;
             pass1 = HexEncoder_stringify
                       (deriveBits P SHA_1 1000 saltBytes (UTF8Encoder_parse password) 256);
             pass2 = HexEncoder_stringify
                       (deriveBits P SHA_256 14000 saltBytes (asciiBytes pass1) 256);
             pass3 = HexEncoder_stringify
                       (deriveBits P SHA_256 585000 saltBytes (asciiBytes pass2) 256)
         in hashPassword P password salt = pass3
            \<and> isDerivedKey pass1 \<and> isDerivedKey pass2 \<and> isDerivedKey pass3
            \<and> length (asciiBytes pass1) = 64 \<and> length (asciiBytes pass2) = 64"
proof -
  have len: "length (deriveBits P h n s p 256) = 32" for h n s p
    using assms by (simp add: derives256_def)
  have chain: "hashPassword P password salt =
      HexEncoder_stringify (deriveBits P SHA_256 585000 (UTF8Encoder_parse salt)
        (asciiBytes (HexEncoder_stringify (deriveBits P SHA_256 14000 (UTF8Encoder_parse salt)
          (asciiBytes (HexEncoder_stringify (deriveBits P SHA_1 1000 (UTF8Encoder_parse salt)
            (UTF8Encoder_parse password) 256))) 256))) 256)"
    by (simp add: hashPassword_def pbkdf2_def parse_hex_string asciiBytes_def)
  show ?thesis
    unfolding Let_def
    by (simp only: chain stringify_derivedKey [OF len] asciiBytes_def length_map
          length_stringify len) simp
qed

text \<open>The theorem at the password \<open>pw\<close> and the salt \<open>0011\<close>, on the stand-in platform.\<close>

theorem hashPassword_three_passes_witness:
  "let saltBytes = UTF8Encoder_parse sampleSalt;
       pass1 = HexEncoder_stringify
                 (deriveBits xorPlatform SHA_1 1000 saltBytes (UTF8Encoder_parse samplePassword) 256);
       pass2 = HexEncoder_stringify
                 (deriveBits xorPlatform SHA_256 14000 saltBytes (asciiBytes pass1) 256);
       pass3 = HexEncoder_stringify
                 (deriveBits xorPlatform SHA_256 585000 saltBytes (asciiBytes pass2) 256)
   in hashPassword xorPlatform samplePassword sampleSalt = pass3
      \<and> isDerivedKey pass1 \<and> isDerivedKey pass2 \<and> isDerivedKey pass3
      \<and> length (asciiBytes pass1) = 64 \<and> length (asciiBytes pass2) = 64"
  by (rule hashPassword_three_passes [OF xorPlatform_derives256])

text \<open>
  Claim C3.  For every plaintext, every 16-byte IV and every derived key, \<open>encrypt\<close>
  returns the hex digits of the IV followed at once by the hex digits of the ciphertext
  that AES-CBC gives for the UTF-8 bytes of the plaintext, and nothing else: the first 32
  characters of the artifact are the IV and the rest is the ciphertext.  For every
  artifact, \<open>decrypt\<close> reads the IV from the first 32 characters and the ciphertext from
  the rest, decrypts, and decodes the result as UTF-8.
\<close>

theorem artifact_layout:
  assumes "length iv = 16" and "isDerivedKey key"
  shows "\<exists>raw ct.
           HexEncoder_parse key = Inr raw
         \<and> subtleEncrypt P iv raw (UTF8Encoder_parse msg) = Inr ct
         \<and> encrypt P iv msg key = Inr (HexEncoder_stringify iv @ HexEncoder_stringify ct)
         \<and> take 32 (HexEncoder_stringify iv @ HexEncoder_stringify ct) = HexEncoder_stringify iv
         \<and> drop 32 (HexEncoder_stringify iv @ HexEncoder_stringify ct) = HexEncoder_stringify ct
         \<and> (\<forall>artifact. decrypt P artifact key =
               bindE (HexEncoder_parse (take 32 artifact)) (\<lambda>iv'.
               bindE (HexEncoder_parse (drop 32 artifact)) (\<lambda>ct'.
               bindE (subtleDecrypt P iv' raw ct') (\<lambda>outBuffer.
               Inr (UTF8Encoder_stringify outBuffer)))))"
proof -
  obtain raw where raw: "HexEncoder_parse key = Inr raw" "importKey raw = Inr raw"
    using derivedKey_import [OF assms(2)] by blast
  obtain ct where ct: "subtleEncrypt P iv raw (UTF8Encoder_parse msg) = Inr ct"
    using assms(1) by (simp add: subtleEncrypt_def)
  have "encrypt P iv msg key = Inr (HexEncoder_stringify iv @ HexEncoder_stringify ct)"
    by (rule encrypt_value [OF assms(1) raw ct])
  moreover have "take 32 (HexEncoder_stringify iv @ HexEncoder_stringify ct) = HexEncoder_stringify iv"
    using take_artifact [OF assms(1)] by (simp add: ivLength_def)
  moreover have "drop 32 (HexEncoder_stringify iv @ HexEncoder_stringify ct) = HexEncoder_stringify ct"
    using drop_artifact [OF assms(1)] by (simp add: ivLength_def)
  moreover have "decrypt P artifact key =
               bindE (HexEncoder_parse (take 32 artifact)) (\<lambda>iv'.
               bindE (HexEncoder_parse (drop 32 artifact)) (\<lambda>ct'.
               bindE (subtleDecrypt P iv' raw ct') (\<lambda>outBuffer.
               Inr (UTF8Encoder_stringify outBuffer))))" for artifact
    using raw by (simp add: decrypt_def ivLength_def)
  ultimately show ?thesis
    using raw(1) ct by blast
qed

text \<open>The theorem at the plaintext \<open>{}\<close> and the derived sample key, on the stand-in platform.\<close>

theorem artifact_layout_witness:
  "\<exists>raw ct.
     HexEncoder_parse (hashPassword xorPlatform samplePassword sampleSalt) = Inr raw
   \<and> subtleEncrypt xorPlatform sampleIV raw (UTF8Encoder_parse [0x7B, 0x7D]) = Inr ct
   \<and> encrypt xorPlatform sampleIV [0x7B, 0x7D] (hashPassword xorPlatform samplePassword sampleSalt)
        = Inr (HexEncoder_stringify sampleIV @ HexEncoder_stringify ct)
   \<and> take 32 (HexEncoder_stringify sampleIV @ HexEncoder_stringify ct) = HexEncoder_stringify sampleIV
   \<and> drop 32 (HexEncoder_stringify sampleIV @ HexEncoder_stringify ct) = HexEncoder_stringify ct
   \<and> (\<forall>artifact. decrypt xorPlatform artifact (hashPassword xorPlatform samplePassword sampleSalt) =
         bindE (HexEncoder_parse (take 32 artifact)) (\<lambda>iv'.
         bindE (HexEncoder_parse (drop 32 artifact)) (\<lambda>ct'.
         bindE (subtleDecrypt xorPlatform iv' raw ct') (\<lambda>outBuffer.
         Inr (UTF8Encoder_stringify outBuffer)))))"
proof -
  have "length sampleIV = 16"
    by (simp add: sampleIV_def)
  then show ?thesis
    by (rule artifact_layout [OF _ hashPassword_derivedKey [OF xorPlatform_derives256]])
qed

text \<open>
  Claim C4, as amended.  Let the platform's AES be a block cipher.  For every derived
  key, any two distinct 16-byte IVs and every plaintext that is well-formed UTF-16 and does
  not begin with U+FEFF, the two artifacts that \<open>encrypt\<close> produces differ, already in
  their first 32 characters, and both decrypt back to the plaintext under the key.
\<close>

theorem distinct_IVs_distinct_artifacts:
  assumes "blockCipher P" and "isDerivedKey key"
    and "length iv1 = 16" and "length iv2 = 16" and "iv1 \<noteq> iv2"
    and "isWellFormed plaintext" and "\<not> startsWithBOM plaintext"
  shows "\<exists>a1 a2.
           encrypt P iv1 plaintext key = Inr a1 \<and> encrypt P iv2 plaintext key = Inr a2
         \<and> take 32 a1 \<noteq> take 32 a2 \<and> a1 \<noteq> a2
         \<and> decrypt P a1 key = Inr plaintext \<and> decrypt P a2 key = Inr plaintext"
proof -
  have decoded: "UTF8Encoder_stringify (UTF8Encoder_parse plaintext) = plaintext"
    by (rule UTF8_roundtrip [OF assms(6,7)])
  obtain ct1 where a1: "encrypt P iv1 plaintext key
        = Inr (HexEncoder_stringify iv1 @ HexEncoder_stringify ct1)"
      "decrypt P (HexEncoder_stringify iv1 @ HexEncoder_stringify ct1) key = Inr plaintext"
    using decrypt_encrypt [OF assms(1,3,2), of plaintext] decoded by auto
  obtain ct2 where a2: "encrypt P iv2 plaintext key
        = Inr (HexEncoder_stringify iv2 @ HexEncoder_stringify ct2)"
      "decrypt P (HexEncoder_stringify iv2 @ HexEncoder_stringify ct2) key = Inr plaintext"
    using decrypt_encrypt [OF assms(1,4,2), of plaintext] decoded by auto
  have t1: "take 32 (HexEncoder_stringify iv1 @ HexEncoder_stringify ct1) = HexEncoder_stringify iv1"
    using take_artifact [OF assms(3)] by (simp add: ivLength_def)
  have t2: "take 32 (HexEncoder_stringify iv2 @ HexEncoder_stringify ct2) = HexEncoder_stringify iv2"
    using take_artifact [OF assms(4)] by (simp add: ivLength_def)
  have "HexEncoder_stringify iv1 \<noteq> HexEncoder_stringify iv2"
    using assms(5) stringify_inject by blast
  then have differ: "take 32 (HexEncoder_stringify iv1 @ HexEncoder_stringify ct1)
      \<noteq> take 32 (HexEncoder_stringify iv2 @ HexEncoder_stringify ct2)"
    by (simp add: t1 t2 del: take_append)
  then have "HexEncoder_stringify iv1 @ HexEncoder_stringify ct1
      \<noteq> HexEncoder_stringify iv2 @ HexEncoder_stringify ct2"
    by (rule contrapos_nn) (erule arg_cong)
  with a1 a2 differ show ?thesis by blast
qed

text \<open>The theorem at two IVs that differ in their first byte and the plaintext \<open>{}\<close>.\<close>

theorem distinct_IVs_distinct_artifacts_witness:
  "\<exists>a1 a2.
     encrypt xorPlatform sampleIV [0x7B, 0x7D] (hashPassword xorPlatform samplePassword sampleSalt)
       = Inr a1
   \<and> encrypt xorPlatform otherIV [0x7B, 0x7D] (hashPassword xorPlatform samplePassword sampleSalt)
       = Inr a2
   \<and> take 32 a1 \<noteq> take 32 a2 \<and> a1 \<noteq> a2
   \<and> decrypt xorPlatform a1 (hashPassword xorPlatform samplePassword sampleSalt) = Inr [0x7B, 0x7D]
   \<and> decrypt xorPlatform a2 (hashPassword xorPlatform samplePassword sampleSalt) = Inr [0x7B, 0x7D]"
proof -
  have "length sampleIV = 16" and "length otherIV = 16" and "sampleIV \<noteq> otherIV"
    by (simp_all add: sampleIV_def otherIV_def)
  moreover have "isWellFormed [0x7B, 0x7D]" and "\<not> startsWithBOM [0x7B, 0x7D]"
    by (simp_all add: startsWithBOM_def isHighSurrogate_def isLowSurrogate_def)
  ultimately show ?thesis
    by (rule distinct_IVs_distinct_artifacts
          [OF xorPlatform_blockCipher hashPassword_derivedKey [OF xorPlatform_derives256]])
qed

text \<open>
  As stated, for every plaintext, C4 fails: a plaintext that begins with a byte order
  mark decrypts to the text after the mark, whatever the IV.
\<close>

theorem distinct_IVs_BOM_counterexample:
  "roundTrip xorPlatform otherIV [0xFEFF, 0x7B, 0x7D]
     (hashPassword xorPlatform samplePassword sampleSalt) = Inr [0x7B, 0x7D]"
proof -
  have "isWellFormed [0x7B, 0x7D]"
    by (simp add: isHighSurrogate_def isLowSurrogate_def)
  then have "UTF8Encoder_stringify (UTF8Encoder_parse [0xFEFF, 0x7B, 0x7D]) = [0x7B, 0x7D]"
    by (rule UTF8_drops_BOM)
  moreover have "length otherIV = 16"
    by (simp add: otherIV_def)
  ultimately show ?thesis
    using roundTrip_value [OF xorPlatform_blockCipher _
        hashPassword_derivedKey [OF xorPlatform_derives256], of otherIV "[0xFEFF, 0x7B, 0x7D]"]
    by simp
qed

text \<open>
  Claim C5 says that \<open>HexEncoder.parse\<close> fails on every pair of characters that is not
  two hex digits.  The code does not: \<open>parseInt\<close> skips leading white space and stops at
  the first character that is no digit, so the pairs \<open>" 1"\<close> (a space, then 1) and
  \<open>"1g"\<close> are both read as the byte 1.
\<close>

theorem parse_accepts_non_hex_pairs:
  "HexEncoder_parse [0x20, 0x31] = Inr [1] \<and> HexEncoder_parse [0x31, 0x67] = Inr [1]"
  by (simp add: HexEncoder_parse_def parseInt16_def isWhiteSpace_def hexDigitValue_def)

section \<open>The scripts: facts\<close>

lemmas io_defs =
  returnIO_def bindIO_def process_exit_def liftE_def tryCatch_def logEvent_def
  existsSync_def readFileSync_def writeFileSync_def copyFileSync_def unlinkSync_def
  rmEncryptedDir_def getRandomValues_def execStatiCrypt_def hashPasswordIO_def encryptIO_def
  generateRandomSalt_def loadOrCreateConfig_def runMain_def

subsection \<open>Traces\<close>

lemma precedes_absent: "b \<notin> set t \<Longrightarrow> precedes a b t"
  by (induction t) auto

lemma precedes_append: "precedes a b t \<Longrightarrow> a \<in> set t \<Longrightarrow> precedes a b (t @ es)"
  by (induction t) (auto split: if_splits)

lemma precedes_snoc_other: "precedes a b t \<Longrightarrow> e \<noteq> b \<Longrightarrow> precedes a b (t @ [e])"
  by (induction t) (auto split: if_splits)

lemma precedes_snoc_first: "b \<notin> set t \<Longrightarrow> a \<noteq> b \<Longrightarrow> precedes a b (t @ [a])"
  by (induction t) auto

subsection \<open>Rules for \<open>ensures\<close>\<close>

lemma ensures_bind:
  assumes "ensures pre m mid abort" and "\<And>x. ensures (mid x) (f x) post abort"
  shows "ensures pre (bindIO m f) post abort"
  using assms unfolding ensures_def bindIO_def
  by (fastforce split: prod.splits sum.splits)

lemma ensures_if:
  assumes "c \<Longrightarrow> ensures pre m post abort" and "\<not> c \<Longrightarrow> ensures pre n post abort"
  shows "ensures pre (if c then m else n) post abort"
  using assms by simp

lemma ensures_returnIO:
  assumes "\<And>w. pre w \<Longrightarrow> post x w"
  shows "ensures pre (returnIO x) post abort"
  using assms by (simp add: ensures_def returnIO_def)

lemma ensures_process_exit:
  assumes "\<And>w. pre w \<Longrightarrow> abort (Exit oc) w"
  shows "ensures pre (process_exit oc) post abort"
  using assms by (simp add: ensures_def process_exit_def)

lemma ensures_liftE:
  assumes "\<And>w x. pre w \<Longrightarrow> r = Inr x \<Longrightarrow> post x w"
    and "\<And>w e. pre w \<Longrightarrow> r = Inl e \<Longrightarrow> abort (Throw e) w"
  shows "ensures pre (liftE r) post abort"
  using assms by (cases r) (simp_all add: ensures_def liftE_def)

lemma ensures_tryCatch:
  assumes "ensures pre m post caught"
    and "\<And>e. ensures (caught (Throw e)) (handler e) post abort"
    and "\<And>oc w. caught (Exit oc) w \<Longrightarrow> abort (Exit oc) w"
  shows "ensures pre (tryCatch m handler) post abort"
  using assms unfolding ensures_def tryCatch_def
  by (fastforce split: prod.splits sum.splits stop.splits)

lemma ensures_existsSync:
  assumes "\<And>w. pre w \<Longrightarrow> post (files w p \<noteq> None) w"
  shows "ensures pre (existsSync p) post abort"
  using assms by (simp add: ensures_def existsSync_def)

lemma ensures_readFileSync:
  assumes "\<And>w. pre w \<Longrightarrow> files w p = None \<Longrightarrow> abort (Throw ENOENT) w"
    and "\<And>w content. pre w \<Longrightarrow> files w p = Some content \<Longrightarrow>
           post (utf8Decode content) (logEvent (Read p) w)"
  shows "ensures pre (readFileSync p) post abort"
  using assms by (simp add: ensures_def readFileSync_def split: option.splits)

lemma ensures_writeFileSync:
  assumes "\<And>w. pre w \<Longrightarrow>
             post () (logEvent (Write p) (w\<lparr>files := (files w)(p \<mapsto> UTF8Encoder_parse str)\<rparr>))"
  shows "ensures pre (writeFileSync p str) post abort"
  using assms by (simp add: ensures_def writeFileSync_def)

lemma ensures_copyFileSync:
  assumes "\<And>w. pre w \<Longrightarrow> files w src = None \<Longrightarrow> abort (Throw ENOENT) w"
    and "\<And>w content. pre w \<Longrightarrow> files w src = Some content \<Longrightarrow>
           post () (logEvent (Copy src dest) (w\<lparr>files := (files w)(dest \<mapsto> content)\<rparr>))"
  shows "ensures pre (copyFileSync src dest) post abort"
  using assms by (simp add: ensures_def copyFileSync_def split: option.splits)

lemma ensures_unlinkSync:
  assumes "\<And>w. pre w \<Longrightarrow> files w p = None \<Longrightarrow> abort (Throw ENOENT) w"
    and "\<And>w content. pre w \<Longrightarrow> files w p = Some content \<Longrightarrow>
           post () (logEvent (Unlink p) (w\<lparr>files := (files w)(p := None)\<rparr>))"
  shows "ensures pre (unlinkSync p) post abort"
  using assms by (simp add: ensures_def unlinkSync_def split: option.splits)

lemma ensures_rmEncryptedDir:
  assumes "\<And>w. pre w \<Longrightarrow>
             post () (logEvent RmEncryptedDir (w\<lparr>files := (files w)(ENCRYPTED_INDEX_PATH := None)\<rparr>))"
  shows "ensures pre rmEncryptedDir post abort"
  using assms by (simp add: ensures_def rmEncryptedDir_def)

lemma ensures_getRandomValues:
  assumes "\<And>w. pre w \<Longrightarrow>
             post (map (randomBytes w) [drawn w ..< drawn w + n]) (w\<lparr>drawn := drawn w + n\<rparr>)"
  shows "ensures pre (getRandomValues n) post abort"
  using assms by (simp add: ensures_def getRandomValues_def)

lemma ensures_hashPasswordIO:
  assumes "\<And>w. pre w \<Longrightarrow> post (hashPassword P password salt) (logEvent HashPassword w)"
  shows "ensures pre (hashPasswordIO P password salt) post abort"
  using assms by (simp add: ensures_def hashPasswordIO_def)

lemma ensures_execStatiCrypt:
  assumes "\<And>w fs. pre w \<Longrightarrow> staticrypt P password (files w) = (True, fs) \<Longrightarrow>
             post () (logEvent RunStatiCrypt (w\<lparr>files := fs\<rparr>))"
    and "\<And>w fs. pre w \<Longrightarrow> staticrypt P password (files w) = (False, fs) \<Longrightarrow>
             abort (Throw ExecError) (logEvent RunStatiCrypt (w\<lparr>files := fs\<rparr>))"
  shows "ensures pre (execStatiCrypt P password) post abort"
  using assms by (auto simp: ensures_def execStatiCrypt_def split: prod.splits)

subsection \<open>The phases of the full encryption script\<close>

lemmas phase_defs =
  beforeWrite_def written_def patched_def toolRan_def published_def aborted_def logEvent_def

lemma toolRan_published: "toolRan w \<Longrightarrow> published w"
  by (simp add: toolRan_def published_def precedes_absent)

lemma loadOrCreateConfig_beforeWrite:
  "ensures (beforeWrite d) (loadOrCreateConfig P) (\<lambda>salt. beforeWrite d) (aborted d)"
  unfolding loadOrCreateConfig_def generateRandomSalt_def
  apply (rule ensures_bind [where mid = "\<lambda>x. beforeWrite d"])
   apply (rule ensures_existsSync, simp)
  apply (rule ensures_if)
   apply (rule ensures_bind [where mid = "\<lambda>x. beforeWrite d"])
    apply (rule ensures_readFileSync; simp add: phase_defs)
   apply (rule ensures_liftE; simp add: phase_defs)
  apply (rule ensures_bind [where mid = "\<lambda>x. beforeWrite d"])
   apply (rule ensures_bind [where mid = "\<lambda>x. beforeWrite d"])
    apply (rule ensures_getRandomValues, simp add: phase_defs)
   apply (rule ensures_returnIO, simp)
  apply (rule ensures_bind [where mid = "\<lambda>x. beforeWrite d"])
   apply (rule ensures_writeFileSync, simp add: phase_defs)
  apply (rule ensures_returnIO, simp)
  done

lemma encryptIO_beforeWrite:
  "ensures (beforeWrite d) (encryptIO P msg key) (\<lambda>artifact. beforeWrite d) (aborted d)"
  unfolding encryptIO_def
  apply (rule ensures_bind [where mid = "\<lambda>x. beforeWrite d"])
   apply (rule ensures_getRandomValues, simp add: phase_defs)
  apply (rule ensures_liftE; simp add: phase_defs)
  done

lemma publish_toolRan:
  "ensures toolRan
     (bindIO (existsSync ENCRYPTED_INDEX_PATH) (\<lambda>enc.
      bindIO (if enc then
                bindIO (readFileSync ENCRYPTED_INDEX_PATH) (\<lambda>encryptedHtml.
                bindIO (writeFileSync INDEX_PATH (patchEncryptedHtml P encryptedHtml)) (\<lambda>u.
                rmEncryptedDir))
              else returnIO ()) (\<lambda>u.
      bindIO (existsSync DATA_PATH) (\<lambda>still.
      if still then unlinkSync DATA_PATH else returnIO ()))))
     (\<lambda>u. published) (aborted d)"
  apply (rule ensures_bind [where mid = "\<lambda>x. toolRan"])
   apply (rule ensures_existsSync, simp)
  apply (rule ensures_bind [where mid = "\<lambda>x. toolRan"])
   apply (rule ensures_if)
    apply (rule ensures_bind [where mid = "\<lambda>x. toolRan"])
     apply (rule ensures_readFileSync)
      apply (simp add: aborted_def toolRan_published)
     apply (simp add: toolRan_def logEvent_def precedes_append)
    apply (rule ensures_bind [where mid = "\<lambda>x. toolRan"])
     apply (rule ensures_writeFileSync)
     apply (simp add: toolRan_def logEvent_def precedes_append)
    apply (rule ensures_rmEncryptedDir)
    apply (simp add: toolRan_def logEvent_def precedes_append)
   apply (rule ensures_returnIO, simp)
  apply (rule ensures_bind [where mid = "\<lambda>x. toolRan"])
   apply (rule ensures_existsSync, simp)
  apply (rule ensures_if)
   apply (rule ensures_unlinkSync)
    apply (simp add: aborted_def toolRan_published)
   apply (simp add: toolRan_def published_def logEvent_def precedes_append precedes_absent)
  apply (rule ensures_returnIO, simp add: toolRan_published)
  done

lemma encrypt_main_body_phases:
  "ensures (beforeWrite d) (encrypt_main_body P env) (\<lambda>u. published) (aborted d)"
  unfolding encrypt_main_body_def Let_def
  apply (rule ensures_if)
   apply (rule ensures_process_exit, simp add: phase_defs)
  apply (rule ensures_bind [where mid = "\<lambda>x. beforeWrite d"])
   apply (rule ensures_existsSync, simp)
  apply (rule ensures_if)
   apply (rule ensures_process_exit, simp add: phase_defs)
  apply (rule ensures_bind [where mid = "\<lambda>x. beforeWrite d"])
   apply (rule loadOrCreateConfig_beforeWrite)
  apply (rule ensures_bind [where mid = "\<lambda>x. beforeWrite d"])
   apply (rule ensures_hashPasswordIO, simp add: phase_defs)
  apply (rule ensures_bind [where mid = "\<lambda>x. beforeWrite d"])
   apply (rule ensures_readFileSync; simp add: phase_defs)
  apply (rule ensures_bind [where mid = "\<lambda>x. beforeWrite d"])
   apply (rule encryptIO_beforeWrite)
  apply (rule ensures_bind [where mid = "\<lambda>x. written"])
   apply (rule ensures_writeFileSync, simp add: phase_defs)
  apply (rule ensures_bind [where mid = "\<lambda>x. written"])
   apply (rule ensures_existsSync, simp)
  apply (rule ensures_bind [where mid = "\<lambda>x. written"])
   apply (rule ensures_if)
    apply (rule ensures_copyFileSync; simp add: phase_defs)
   apply (rule ensures_copyFileSync; simp add: phase_defs)
  apply (rule ensures_bind [where mid = "\<lambda>x. written"])
   apply (rule ensures_readFileSync; simp add: phase_defs)
  apply (rule ensures_bind [where mid = "\<lambda>x. patched"])
   apply (rule ensures_writeFileSync, simp add: phase_defs)
  apply (rule ensures_bind [where mid = "\<lambda>x. toolRan"])
   apply (rule ensures_tryCatch [where caught = "\<lambda>s w. s = Throw ExecError \<and> toolRan w"])
     apply (rule ensures_execStatiCrypt)
      apply (simp add: patched_def written_def toolRan_def logEvent_def
               precedes_absent precedes_append)
     apply (simp add: patched_def written_def toolRan_def logEvent_def
              precedes_absent precedes_append)
    apply (rule ensures_process_exit, simp add: aborted_def)
   apply simp
  apply (rule publish_toolRan)
  done

lemma encrypt_main_facts:
  assumes "trace w = []"
  shows "precedes (Write INDEX_PATH) RunStatiCrypt (trace (snd (encrypt_main P env w)))"
    and "precedes RunStatiCrypt (Unlink DATA_PATH) (trace (snd (encrypt_main P env w)))"
    and "precedes (Write DATA_ENC_PATH) (Unlink DATA_PATH) (trace (snd (encrypt_main P env w)))"
    and "fst (encrypt_main P env w) = Failed ExternalToolFailed \<Longrightarrow>
           RunStatiCrypt \<in> set (trace (snd (encrypt_main P env w)))
         \<and> Write DATA_ENC_PATH \<in> set (trace (snd (encrypt_main P env w)))
         \<and> Unlink DATA_PATH \<notin> set (trace (snd (encrypt_main P env w)))"
    and "Write DATA_ENC_PATH \<notin> set (trace (snd (encrypt_main P env w))) \<Longrightarrow>
           files (snd (encrypt_main P env w)) DATA_PATH = files w DATA_PATH
         \<and> exitCode (fst (encrypt_main P env w)) = 1"
proof -
  define d where "d = files w DATA_PATH"
  obtain r w' where run: "encrypt_main_body P env w = (r, w')"
    by (cases "encrypt_main_body P env w")
  have start: "beforeWrite d w"
    using assms by (simp add: beforeWrite_def d_def)
  have result: "case r of Inr u \<Rightarrow> published w' | Inl s \<Rightarrow> aborted d s w'"
    using encrypt_main_body_phases [of d P env] start run
    by (auto simp: ensures_def split: sum.splits)
  have main: "encrypt_main P env w =
      (case r of Inr u \<Rightarrow> Completed | Inl (Exit oc) \<Rightarrow> oc | Inl (Throw e) \<Rightarrow> Failed (Uncaught e), w')"
    by (simp add: encrypt_main_def runMain_def run split: sum.splits stop.splits)
  show "precedes (Write INDEX_PATH) RunStatiCrypt (trace (snd (encrypt_main P env w)))"
    using result unfolding main
    by (auto simp: published_def aborted_def beforeWrite_def written_def toolRan_def
          precedes_absent split: sum.splits if_splits)
  show "precedes RunStatiCrypt (Unlink DATA_PATH) (trace (snd (encrypt_main P env w)))"
    using result unfolding main
    by (auto simp: published_def aborted_def beforeWrite_def written_def toolRan_def
          precedes_absent split: sum.splits if_splits)
  show "precedes (Write DATA_ENC_PATH) (Unlink DATA_PATH) (trace (snd (encrypt_main P env w)))"
    using result unfolding main
    by (auto simp: published_def aborted_def beforeWrite_def written_def toolRan_def
          precedes_absent split: sum.splits if_splits)
  show "RunStatiCrypt \<in> set (trace (snd (encrypt_main P env w)))
         \<and> Write DATA_ENC_PATH \<in> set (trace (snd (encrypt_main P env w)))
         \<and> Unlink DATA_PATH \<notin> set (trace (snd (encrypt_main P env w)))"
    if "fst (encrypt_main P env w) = Failed ExternalToolFailed"
    using result that unfolding main
    by (auto simp: aborted_def toolRan_def split: sum.splits stop.splits if_splits)
  show "files (snd (encrypt_main P env w)) DATA_PATH = files w DATA_PATH
         \<and> exitCode (fst (encrypt_main P env w)) = 1"
    if "Write DATA_ENC_PATH \<notin> set (trace (snd (encrypt_main P env w)))"
    using result that unfolding main
    by (auto simp: published_def aborted_def beforeWrite_def written_def toolRan_def d_def
          split: sum.splits stop.splits if_splits)
qed

subsection \<open>Runs on the sample world\<close>

lemma encrypt_artifactOf:
  assumes "length iv = 16" and "isDerivedKey key"
  shows "encrypt P iv msg key = Inr (artifactOf P iv msg key)"
proof -
  obtain raw where raw: "HexEncoder_parse key = Inr raw" "importKey raw = Inr raw"
    using derivedKey_import [OF assms(2)] by blast
  then show ?thesis
    using assms(1) by (simp add: artifactOf_def encrypt_def subtleEncrypt_def)
qed


lemma samplePassword_given: "\<not> noPassword (Some samplePassword)"
  by (simp add: noPassword_def samplePassword_def)


lemma xorPlatform_tool:
  "staticrypt xorPlatform password fs =
     (case fs INDEX_PATH of None \<Rightarrow> (False, fs)
      | Some html \<Rightarrow> (True, fs(ENCRYPTED_INDEX_PATH \<mapsto> html)))"
  by (simp add: xorPlatform_def)

lemma successful_run:
  "fst (encrypt_main xorPlatform (Some samplePassword) sampleWorld) = Completed
   \<and> trace (snd (encrypt_main xorPlatform (Some samplePassword) sampleWorld)) =
       [Write CONFIG_PATH, HashPassword, Read DATA_PATH, Write DATA_ENC_PATH,
        Copy INDEX_PATH INDEX_BAK_PATH, Read INDEX_PATH, Write INDEX_PATH, RunStatiCrypt,
        Read ENCRYPTED_INDEX_PATH, Write INDEX_PATH, RmEncryptedDir, Unlink DATA_PATH]
   \<and> files (snd (encrypt_main xorPlatform (Some samplePassword) sampleWorld)) DATA_PATH = None"
proof -
  have key: "isDerivedKey (hashPassword xorPlatform password salt)" for password salt
    by (rule hashPassword_derivedKey [OF xorPlatform_derives256])
  show ?thesis
    using samplePassword_given
    by (simp add: encrypt_main_def encrypt_main_body_def io_defs sampleWorld_def
          encrypt_artifactOf key xorPlatform_tool)
qed

lemma encrypt_data_main_body_phases:
  "ensures (beforeWrite d) (encrypt_data_main_body P env)
     (\<lambda>u w. Write DATA_ENC_PATH \<in> set (trace w)
            \<and> precedes (Write DATA_ENC_PATH) (Unlink DATA_PATH) (trace w))
     (aborted d)"
  unfolding encrypt_data_main_body_def Let_def
  apply (rule ensures_if)
   apply (rule ensures_process_exit, simp add: phase_defs)
  apply (rule ensures_bind [where mid = "\<lambda>x. beforeWrite d"])
   apply (rule ensures_existsSync, simp)
  apply (rule ensures_if)
   apply (rule ensures_process_exit, simp add: phase_defs)
  apply (rule ensures_bind [where mid = "\<lambda>x. beforeWrite d"])
   apply (rule ensures_existsSync, simp)
  apply (rule ensures_if)
   apply (rule ensures_process_exit, simp add: phase_defs)
  apply (rule ensures_bind [where mid = "\<lambda>x. beforeWrite d"])
   apply (rule ensures_readFileSync; simp add: phase_defs)
  apply (rule ensures_bind [where mid = "\<lambda>x. beforeWrite d"])
   apply (rule ensures_liftE; simp add: phase_defs)
  apply (rule ensures_bind [where mid = "\<lambda>x. beforeWrite d"])
   apply (rule ensures_hashPasswordIO, simp add: phase_defs)
  apply (rule ensures_bind [where mid = "\<lambda>x. beforeWrite d"])
   apply (rule ensures_readFileSync; simp add: phase_defs)
  apply (rule ensures_bind [where mid = "\<lambda>x. beforeWrite d"])
   apply (rule encryptIO_beforeWrite)
  apply (rule ensures_bind [where mid = "\<lambda>x. written"])
   apply (rule ensures_writeFileSync, simp add: phase_defs)
  apply (rule ensures_unlinkSync)
   apply (simp add: aborted_def)
  apply (simp add: written_def logEvent_def precedes_absent precedes_append)
  done

lemma encrypt_data_main_facts:
  assumes "trace w = []"
  shows "precedes (Write DATA_ENC_PATH) (Unlink DATA_PATH) (trace (snd (encrypt_data_main P env w)))"
    and "Write DATA_ENC_PATH \<notin> set (trace (snd (encrypt_data_main P env w))) \<Longrightarrow>
           files (snd (encrypt_data_main P env w)) DATA_PATH = files w DATA_PATH
           \<and> exitCode (fst (encrypt_data_main P env w)) = 1"
proof -
  define d where "d = files w DATA_PATH"
  obtain r w' where run: "encrypt_data_main_body P env w = (r, w')"
    by (cases "encrypt_data_main_body P env w")
  have start: "beforeWrite d w"
    using assms by (simp add: beforeWrite_def d_def)
  have result: "case r of
        Inr u \<Rightarrow> Write DATA_ENC_PATH \<in> set (trace w')
                 \<and> precedes (Write DATA_ENC_PATH) (Unlink DATA_PATH) (trace w')
      | Inl s \<Rightarrow> aborted d s w'"
    using encrypt_data_main_body_phases [of d P env] start run
    by (auto simp: ensures_def split: sum.splits)
  have main: "encrypt_data_main P env w =
      (case r of Inr u \<Rightarrow> Completed | Inl (Exit oc) \<Rightarrow> oc | Inl (Throw e) \<Rightarrow> Failed (Uncaught e), w')"
    by (simp add: encrypt_data_main_def runMain_def run split: sum.splits stop.splits)
  show "precedes (Write DATA_ENC_PATH) (Unlink DATA_PATH) (trace (snd (encrypt_data_main P env w)))"
    using result unfolding main
    by (auto simp: published_def aborted_def beforeWrite_def written_def toolRan_def
          precedes_absent split: sum.splits if_splits)
  show "files (snd (encrypt_data_main P env w)) DATA_PATH = files w DATA_PATH
         \<and> exitCode (fst (encrypt_data_main P env w)) = 1"
    if "Write DATA_ENC_PATH \<notin> set (trace (snd (encrypt_data_main P env w)))"
    using result that unfolding main
    by (auto simp: published_def aborted_def beforeWrite_def written_def toolRan_def d_def
          split: sum.splits stop.splits if_splits)
qed

subsection \<open>When the generator fails\<close>






section \<open>The claims about the workflows\<close>




text \<open>
  Claim C7.  In every run of either encryption script, the full one and the data-only
  one, the plaintext artifact is deleted only after the encrypted artifact has been
  written; and a run that never writes the encrypted artifact ends with a non-zero exit
  status and leaves the plaintext artifact as it found it.
\<close>

theorem plaintext_deleted_after_ciphertext_written:
  assumes "trace w = []"
  shows "precedes (Write DATA_ENC_PATH) (Unlink DATA_PATH) (trace (snd (encrypt_main P env w)))
       \<and> precedes (Write DATA_ENC_PATH) (Unlink DATA_PATH) (trace (snd (encrypt_data_main P env w)))
       \<and> (Write DATA_ENC_PATH \<notin> set (trace (snd (encrypt_main P env w))) \<longrightarrow>
            files (snd (encrypt_main P env w)) DATA_PATH = files w DATA_PATH
          \<and> exitCode (fst (encrypt_main P env w)) = 1)
       \<and> (Write DATA_ENC_PATH \<notin> set (trace (snd (encrypt_data_main P env w))) \<longrightarrow>
            files (snd (encrypt_data_main P env w)) DATA_PATH = files w DATA_PATH
          \<and> exitCode (fst (encrypt_data_main P env w)) = 1)"
  using encrypt_main_facts(3,5) [OF assms, of P env] encrypt_data_main_facts [OF assms, of P env]
  by simp

text \<open>
  The theorem at two runs on the sample world: with a password, where the full script
  completes and the deletion comes last, and without one, where both scripts stop at once
  and the plaintext artifact stays.
\<close>

theorem plaintext_deleted_after_ciphertext_written_witness:
  "precedes (Write DATA_ENC_PATH) (Unlink DATA_PATH)
     (trace (snd (encrypt_main xorPlatform (Some samplePassword) sampleWorld)))
   \<and> files (snd (encrypt_main xorPlatform None sampleWorld)) DATA_PATH = files sampleWorld DATA_PATH
   \<and> exitCode (fst (encrypt_main xorPlatform None sampleWorld)) = 1
   \<and> files (snd (encrypt_data_main xorPlatform None sampleWorld)) DATA_PATH = files sampleWorld DATA_PATH
   \<and> exitCode (fst (encrypt_data_main xorPlatform None sampleWorld)) = 1"
proof -
  have fresh: "trace sampleWorld = []"
    by (simp add: sampleWorld_def)
  have "noPassword None"
    by (simp add: noPassword_def)
  then have stopped: "encrypt_main xorPlatform None sampleWorld = (Failed MissingCredential, sampleWorld)"
    "encrypt_data_main xorPlatform None sampleWorld = (Failed MissingCredential, sampleWorld)"
    by (simp_all add: encrypt_main_def encrypt_main_body_def encrypt_data_main_def
          encrypt_data_main_body_def process_exit_def runMain_def)
  have unwritten: "Write DATA_ENC_PATH \<notin> set (trace (snd (encrypt_main xorPlatform None sampleWorld)))"
    "Write DATA_ENC_PATH \<notin> set (trace (snd (encrypt_data_main xorPlatform None sampleWorld)))"
    by (simp_all add: stopped fresh)
  show ?thesis
    using plaintext_deleted_after_ciphertext_written [OF fresh, of xorPlatform "Some samplePassword"]
      plaintext_deleted_after_ciphertext_written [OF fresh, of xorPlatform None]
      unwritten
    by (simp only: simp_thms)
qed

subsection \<open>The decryption script\<close>

lemma decrypt_main_without_artifact:
  assumes "\<not> noPassword env" and "files w DATA_ENC_PATH = None"
  shows "decrypt_main P env w = (NoOp, w)"
  using assms
  by (simp add: decrypt_main_def decrypt_main_body_def runMain_def bindIO_def existsSync_def
        process_exit_def)

lemma decrypt_main_reaching_decrypt:
  assumes "\<not> noPassword env" and "files w DATA_ENC_PATH = Some enc"
    and "files w CONFIG_PATH = Some cfg" and "configSalt P (utf8Decode cfg) = Inr salt"
  shows "decrypt_main P env w =
    (case decrypt P (utf8Decode enc) (hashPassword P (the env) salt) of
       Inl e \<Rightarrow>
         (Failed (DecryptionFailed e),
          w\<lparr>trace := trace w @ [Read CONFIG_PATH, HashPassword, Read DATA_ENC_PATH]\<rparr>)
     | Inr text \<Rightarrow>
         if jsonParses P text then
           (Completed,
            w\<lparr>files := (files w)(DATA_PATH \<mapsto> UTF8Encoder_parse text),
              trace := trace w @ [Read CONFIG_PATH, HashPassword, Read DATA_ENC_PATH, Write DATA_PATH]\<rparr>)
         else
           (Failed (DecryptionFailed SyntaxError),
            w\<lparr>trace := trace w @ [Read CONFIG_PATH, HashPassword, Read DATA_ENC_PATH]\<rparr>))"
  using assms
  by (simp add: decrypt_main_def decrypt_main_body_def io_defs split: sum.splits)

lemma decrypt_main_stops_early:
  assumes "noPassword env \<or> files w DATA_ENC_PATH = None \<or> files w CONFIG_PATH = None
           \<or> (\<exists>cfg e. files w CONFIG_PATH = Some cfg \<and> configSalt P (utf8Decode cfg) = Inl e)"
  shows "fst (decrypt_main P env w) \<noteq> Completed
       \<and> files (snd (decrypt_main P env w)) = files w
       \<and> set (trace (snd (decrypt_main P env w))) \<subseteq> set (trace w) \<union> {Read CONFIG_PATH}"
  using assms
  by (auto simp: decrypt_main_def decrypt_main_body_def io_defs split: option.splits)

subsection \<open>Decrypting what the sample run encrypted\<close>

lemma ascii_stringify: "list_all (\<lambda>c. unat c < 0x80) (HexEncoder_stringify bs)"
  using stringify_lower_hex [of bs] by (auto simp: list_all_iff lowerHex_ascii)

lemma utf8Decode_plain: "utf8Decode [0x7B, 0x7D] = [0x7B, 0x7D]"
proof -
  have "isWellFormed [0x7B, 0x7D :: codeunit]"
    by (simp add: isHighSurrogate_def isLowSurrogate_def)
  moreover have "UTF8Encoder_parse [0x7B, 0x7D] = [0x7B, 0x7D]"
    by (simp add: UTF8Encoder_parse_def utf8EncodeCodePoint_def isHighSurrogate_def
          isLowSurrogate_def)
  ultimately show ?thesis
    using utf8Decode_parse [of "[0x7B, 0x7D]"] by simp
qed

lemma utf8Decode_digit: "utf8Decode [0x30] = [0x30]"
proof -
  have "isWellFormed [0x30 :: codeunit]"
    by (simp add: isHighSurrogate_def isLowSurrogate_def)
  moreover have "UTF8Encoder_parse [0x30] = [0x30]"
    by (simp add: UTF8Encoder_parse_def utf8EncodeCodePoint_def isHighSurrogate_def
          isLowSurrogate_def)
  ultimately show ?thesis
    using utf8Decode_parse [of "[0x30]"] by simp
qed

lemma encryptedWorld_files:
  "files encryptedWorld CONFIG_PATH = Some (UTF8Encoder_parse (stringifyConfig runSalt))"
  "files encryptedWorld DATA_ENC_PATH =
     Some (UTF8Encoder_parse
       (artifactOf xorPlatform runIV [0x7B, 0x7D] (hashPassword xorPlatform samplePassword runSalt)))"
  "files encryptedWorld DATA_PATH = None"
  "trace encryptedWorld = []"
proof -
  have key: "isDerivedKey (hashPassword xorPlatform password salt)" for password salt
    by (rule hashPassword_derivedKey [OF xorPlatform_derives256])
  show "files encryptedWorld CONFIG_PATH = Some (UTF8Encoder_parse (stringifyConfig runSalt))"
    using samplePassword_given
    by (simp add: encryptedWorld_def encrypt_main_def encrypt_main_body_def io_defs sampleWorld_def
          encrypt_artifactOf key xorPlatform_tool runSalt_def)
  show "files encryptedWorld DATA_ENC_PATH =
     Some (UTF8Encoder_parse
       (artifactOf xorPlatform runIV [0x7B, 0x7D] (hashPassword xorPlatform samplePassword runSalt)))"
    using samplePassword_given
    by (simp add: encryptedWorld_def encrypt_main_def encrypt_main_body_def io_defs sampleWorld_def
          encrypt_artifactOf key xorPlatform_tool runSalt_def runIV_def utf8Decode_plain)
  show "files encryptedWorld DATA_PATH = None"
    using successful_run by (simp add: encryptedWorld_def)
  show "trace encryptedWorld = []"
    by (simp add: encryptedWorld_def)
qed

lemma configSalt_stringifyConfig:
  "configSalt xorPlatform (utf8Decode (UTF8Encoder_parse (stringifyConfig runSalt))) = Inr runSalt"
proof -
  have "list_all (\<lambda>c. unat c < 0x80) (stringifyConfig runSalt)"
    using ascii_stringify [of "map of_nat [0..<16]"]
    by (simp add: stringifyConfig_def runSalt_def)
  then have "utf8Decode (UTF8Encoder_parse (stringifyConfig runSalt)) = stringifyConfig runSalt"
    by (intro utf8Decode_parse wellFormed_ascii)
  moreover have "length runSalt = 32"
    by (simp add: runSalt_def length_stringify)
  ultimately show ?thesis
    by (simp add: xorPlatform_def stringifyConfig_def)
qed

lemma decrypt_sample_artifact:
  "decrypt xorPlatform
     (utf8Decode (UTF8Encoder_parse
        (artifactOf xorPlatform runIV [0x7B, 0x7D] (hashPassword xorPlatform samplePassword runSalt))))
     (hashPassword xorPlatform samplePassword runSalt) = Inr [0x7B, 0x7D]"
proof -
  define key where "key = hashPassword xorPlatform samplePassword runSalt"
  have key: "isDerivedKey key"
    unfolding key_def by (rule hashPassword_derivedKey [OF xorPlatform_derives256])
  have iv: "length runIV = 16"
    by (simp add: runIV_def)
  obtain ct where ct:
      "encrypt xorPlatform runIV [0x7B, 0x7D] key
         = Inr (HexEncoder_stringify runIV @ HexEncoder_stringify ct)"
      "decrypt xorPlatform (HexEncoder_stringify runIV @ HexEncoder_stringify ct) key
         = Inr (UTF8Encoder_stringify (UTF8Encoder_parse [0x7B, 0x7D]))"
    using decrypt_encrypt [OF xorPlatform_blockCipher iv key, of "[0x7B, 0x7D]"] by blast
  have art: "artifactOf xorPlatform runIV [0x7B, 0x7D] key
               = HexEncoder_stringify runIV @ HexEncoder_stringify ct"
    using ct(1) by (simp add: artifactOf_def)
  have "list_all (\<lambda>c. unat c < 0x80) (HexEncoder_stringify runIV @ HexEncoder_stringify ct)"
    by (simp add: ascii_stringify)
  then have "utf8Decode (UTF8Encoder_parse (HexEncoder_stringify runIV @ HexEncoder_stringify ct))
               = HexEncoder_stringify runIV @ HexEncoder_stringify ct"
    by (intro utf8Decode_parse wellFormed_ascii)
  moreover have "UTF8Encoder_stringify (UTF8Encoder_parse [0x7B, 0x7D]) = [0x7B, 0x7D]"
    by (rule UTF8_roundtrip)
       (simp_all add: startsWithBOM_def isHighSurrogate_def isLowSurrogate_def)
  ultimately show ?thesis
    using ct(2) by (simp add: art key_def [symmetric])
qed

lemma decrypt_after_encrypt:
  "decrypt_main xorPlatform (Some samplePassword) encryptedWorld =
     (Completed,
      encryptedWorld\<lparr>files := (files encryptedWorld)(DATA_PATH \<mapsto> [0x7B, 0x7D]),
        trace := [Read CONFIG_PATH, HashPassword, Read DATA_ENC_PATH, Write DATA_PATH]\<rparr>)"
proof -
  have "jsonParses xorPlatform [0x7B, 0x7D]"
    by (simp add: xorPlatform_def)
  moreover have "UTF8Encoder_parse [0x7B, 0x7D] = [0x7B, 0x7D]"
    by (simp add: UTF8Encoder_parse_def utf8EncodeCodePoint_def isHighSurrogate_def
          isLowSurrogate_def)
  ultimately show ?thesis
    using decrypt_main_reaching_decrypt [OF samplePassword_given encryptedWorld_files(2,1)
        configSalt_stringifyConfig]
    by (simp add: decrypt_sample_artifact encryptedWorld_files(4))
qed

text \<open>
  Claim C8.  In every run of the decryption script the plaintext artifact is written only
  when decryption returned a text that parses as JSON, and then the run completes and
  the only change to the files is that text at the plaintext artifact's place.  A run that
  does not complete leaves every file as it was and writes no plaintext artifact.  Once
  the salt is read, the run completes exactly when decryption returns a text that parses
  as JSON; otherwise it ends with \<open>DecryptionFailed\<close>, exit status 1.
\<close>

theorem decrypt_main_writes_only_valid_JSON:
  assumes "trace w = []"
  shows "(Write DATA_PATH \<in> set (trace (snd (decrypt_main P env w))) \<longrightarrow>
            fst (decrypt_main P env w) = Completed
          \<and> (\<exists>enc cfg salt text.
                files w DATA_ENC_PATH = Some enc \<and> files w CONFIG_PATH = Some cfg
              \<and> configSalt P (utf8Decode cfg) = Inr salt
              \<and> decrypt P (utf8Decode enc) (hashPassword P (the env) salt) = Inr text
              \<and> jsonParses P text
              \<and> files (snd (decrypt_main P env w)) = (files w)(DATA_PATH \<mapsto> UTF8Encoder_parse text)))
       \<and> (fst (decrypt_main P env w) \<noteq> Completed \<longrightarrow>
            files (snd (decrypt_main P env w)) = files w
          \<and> Write DATA_PATH \<notin> set (trace (snd (decrypt_main P env w))))
       \<and> (\<forall>enc cfg salt.
            \<not> noPassword env \<and> files w DATA_ENC_PATH = Some enc \<and> files w CONFIG_PATH = Some cfg
            \<and> configSalt P (utf8Decode cfg) = Inr salt \<longrightarrow>
            fst (decrypt_main P env w) =
              (case decrypt P (utf8Decode enc) (hashPassword P (the env) salt) of
                 Inl e \<Rightarrow> Failed (DecryptionFailed e)
               | Inr text \<Rightarrow> if jsonParses P text then Completed
                             else Failed (DecryptionFailed SyntaxError))
          \<and> exitCode (fst (decrypt_main P env w)) =
              (case decrypt P (utf8Decode enc) (hashPassword P (the env) salt) of
                 Inl e \<Rightarrow> 1
               | Inr text \<Rightarrow> if jsonParses P text then 0 else 1))"
proof (cases "noPassword env \<or> files w DATA_ENC_PATH = None \<or> files w CONFIG_PATH = None
           \<or> (\<exists>cfg e. files w CONFIG_PATH = Some cfg \<and> configSalt P (utf8Decode cfg) = Inl e)")
  case True
  from decrypt_main_stops_early [OF True] assms
  have "fst (decrypt_main P env w) \<noteq> Completed"
    and "files (snd (decrypt_main P env w)) = files w"
    and "Write DATA_PATH \<notin> set (trace (snd (decrypt_main P env w)))"
    by auto
  with True show ?thesis
    by auto
next
  case False
  then obtain enc cfg salt where reach: "\<not> noPassword env" "files w DATA_ENC_PATH = Some enc"
      "files w CONFIG_PATH = Some cfg" "configSalt P (utf8Decode cfg) = Inr salt"
    by (cases "files w CONFIG_PATH"; cases "configSalt P (utf8Decode (the (files w CONFIG_PATH)))") auto
  show ?thesis
  proof (cases "decrypt P (utf8Decode enc) (hashPassword P (the env) salt)")
    case (Inl e)
    with decrypt_main_reaching_decrypt [OF reach] assms reach show ?thesis
      by simp
  next
    case (Inr plain)
    with decrypt_main_reaching_decrypt [OF reach] assms reach show ?thesis
      by (cases "jsonParses P plain") simp_all
  qed
qed

text \<open>
  The theorem at three runs of the decryption script: on the world that the full
  encryption script left behind, where it restores the plaintext artifact \<open>{}\<close>; on the
  same world with a damaged encrypted artifact, where it ends with \<open>DecryptionFailed\<close>,
  exit status 1, and changes nothing; and without a password, where it changes nothing.
\<close>

theorem decrypt_main_writes_only_valid_JSON_witness:
  "fst (decrypt_main xorPlatform (Some samplePassword) encryptedWorld) = Completed
   \<and> (\<exists>enc cfg salt text.
         files encryptedWorld DATA_ENC_PATH = Some enc \<and> files encryptedWorld CONFIG_PATH = Some cfg
       \<and> configSalt xorPlatform (utf8Decode cfg) = Inr salt
       \<and> decrypt xorPlatform (utf8Decode enc)
            (hashPassword xorPlatform (the (Some samplePassword)) salt) = Inr text
       \<and> jsonParses xorPlatform text
       \<and> files (snd (decrypt_main xorPlatform (Some samplePassword) encryptedWorld))
           = (files encryptedWorld)(DATA_PATH \<mapsto> UTF8Encoder_parse text))
   \<and> fst (decrypt_main xorPlatform (Some samplePassword) corruptedWorld)
       = Failed (DecryptionFailed InvalidHexString)
   \<and> exitCode (fst (decrypt_main xorPlatform (Some samplePassword) corruptedWorld)) = 1
   \<and> files (snd (decrypt_main xorPlatform (Some samplePassword) corruptedWorld))
       = files corruptedWorld
   \<and> Write DATA_PATH
       \<notin> set (trace (snd (decrypt_main xorPlatform (Some samplePassword) corruptedWorld)))
   \<and> files (snd (decrypt_main xorPlatform None sampleWorld)) = files sampleWorld
   \<and> Write DATA_PATH \<notin> set (trace (snd (decrypt_main xorPlatform None sampleWorld)))"
proof -
  have fresh: "trace encryptedWorld = []" "trace sampleWorld = []" "trace corruptedWorld = []"
    by (simp_all add: encryptedWorld_files(4) sampleWorld_def corruptedWorld_def)
  have damaged: "files corruptedWorld DATA_ENC_PATH = Some [0x30]"
      "files corruptedWorld CONFIG_PATH = Some (UTF8Encoder_parse (stringifyConfig runSalt))"
    by (simp_all add: corruptedWorld_def encryptedWorld_files(1))
  have rejected: "decrypt xorPlatform (utf8Decode [0x30])
      (hashPassword xorPlatform (the (Some samplePassword)) runSalt) = Inl InvalidHexString"
    by (simp add: utf8Decode_digit decrypt_def ivLength_def HexEncoder_parse_def)
  have failed: "fst (decrypt_main xorPlatform (Some samplePassword) corruptedWorld)
      = Failed (DecryptionFailed InvalidHexString)"
    using decrypt_main_writes_only_valid_JSON [OF fresh(3), of xorPlatform "Some samplePassword"]
      samplePassword_given damaged configSalt_stringifyConfig rejected
    by simp
  then have unfinished: "fst (decrypt_main xorPlatform (Some samplePassword) corruptedWorld)
      \<noteq> Completed"
    by simp
  have restored: "Write DATA_PATH
      \<in> set (trace (snd (decrypt_main xorPlatform (Some samplePassword) encryptedWorld)))"
    by (simp add: decrypt_after_encrypt)
  have "noPassword None"
    by (simp add: noPassword_def)
  then have "decrypt_main xorPlatform None sampleWorld = (Failed MissingCredential, sampleWorld)"
    by (simp add: decrypt_main_def decrypt_main_body_def process_exit_def runMain_def)
  then have stopped: "fst (decrypt_main xorPlatform None sampleWorld) \<noteq> Completed"
    by simp
  have code: "exitCode (Failed (DecryptionFailed InvalidHexString)) = 1"
    by simp
  show ?thesis
    using decrypt_main_writes_only_valid_JSON [OF fresh(1), of xorPlatform "Some samplePassword"]
      decrypt_main_writes_only_valid_JSON [OF fresh(3), of xorPlatform "Some samplePassword"]
      decrypt_main_writes_only_valid_JSON [OF fresh(2), of xorPlatform None]
      restored stopped failed unfinished code
    by (simp only: simp_thms)
qed

text \<open>
  Claim C9, as amended.  Whenever a non-empty password is supplied and no encrypted
  artifact exists, the decryption script ends as a no-op with exit status 0 and leaves the
  world exactly as it found it: it reads no salt file, derives no key, and writes or
  alters no file.
\<close>

theorem decrypt_main_no_artifact_is_noop:
  assumes "\<not> noPassword env" and "files w DATA_ENC_PATH = None"
  shows "decrypt_main P env w = (NoOp, w) \<and> exitCode (fst (decrypt_main P env w)) = 0"
  using decrypt_main_without_artifact [OF assms, of P] by simp

text \<open>The theorem at the sample world, which holds no encrypted artifact.\<close>

theorem decrypt_main_no_artifact_is_noop_witness:
  "decrypt_main xorPlatform (Some samplePassword) sampleWorld = (NoOp, sampleWorld)
   \<and> exitCode (fst (decrypt_main xorPlatform (Some samplePassword) sampleWorld)) = 0"
proof -
  have "files sampleWorld DATA_ENC_PATH = None"
    by (simp add: sampleWorld_def)
  with samplePassword_given show ?thesis
    by (rule decrypt_main_no_artifact_is_noop)
qed

text \<open>
  As stated, whenever no encrypted artifact exists, C9 fails: the script asks for the
  password first.  On the sample world, which holds no encrypted artifact, a run without
  a password ends with \<open>MissingCredential\<close> and exit status 1.
\<close>

theorem decrypt_main_no_password_counterexample:
  "files sampleWorld DATA_ENC_PATH = None
   \<and> decrypt_main xorPlatform None sampleWorld = (Failed MissingCredential, sampleWorld)
   \<and> exitCode (fst (decrypt_main xorPlatform None sampleWorld)) = 1"
proof -
  have "noPassword None"
    by (simp add: noPassword_def)
  then have "decrypt_main xorPlatform None sampleWorld = (Failed MissingCredential, sampleWorld)"
    by (simp add: decrypt_main_def decrypt_main_body_def process_exit_def runMain_def)
  then show ?thesis
    by (simp add: sampleWorld_def)
qed

subsection \<open>The salt file\<close>

lemma encrypt_data_main_without_config:
  assumes "files w CONFIG_PATH = None"
  shows "exitCode (fst (encrypt_data_main P env w)) = 1 \<and> snd (encrypt_data_main P env w) = w"
  using assms
  by (simp add: encrypt_data_main_def encrypt_data_main_body_def runMain_def bindIO_def
        existsSync_def process_exit_def)

lemma encrypt_data_main_keeps_config:
  "files (snd (encrypt_data_main P env w)) CONFIG_PATH = files w CONFIG_PATH"
  by (auto simp: encrypt_data_main_def encrypt_data_main_body_def io_defs Let_def
      split: option.splits sum.splits prod.splits stop.splits if_splits)

lemma loadOrCreateConfig_creates:
  assumes "files w CONFIG_PATH = None"
  shows "loadOrCreateConfig P w =
     (Inr (HexEncoder_stringify (map (randomBytes w) [drawn w ..< drawn w + 16])),
      w\<lparr>files := (files w)(CONFIG_PATH \<mapsto> UTF8Encoder_parse (stringifyConfig
               (HexEncoder_stringify (map (randomBytes w) [drawn w ..< drawn w + 16])))),
        drawn := drawn w + 16,
        trace := trace w @ [Write CONFIG_PATH]\<rparr>)"
  using assms by (simp add: io_defs)

text \<open>
  Claim C10.  The data-only encryption script never creates a salt: no run of it changes
  the salt file, and whenever the salt file is absent the run ends with exit status 1
  and leaves the world exactly as it found it, so it has derived no key, written no
  ciphertext and not deleted the plaintext artifact.  The full script's
  \<open>loadOrCreateConfig\<close>, in the same situation, draws 16 random bytes, writes their hex
  digits to the salt file as \<open>{ "salt": ... }\<close> and returns them.
\<close>

theorem data_only_script_never_creates_salt:
  "files (snd (encrypt_data_main P env w)) CONFIG_PATH = files w CONFIG_PATH
   \<and> (files w CONFIG_PATH = None \<longrightarrow>
        exitCode (fst (encrypt_data_main P env w)) = 1 \<and> snd (encrypt_data_main P env w) = w)
   \<and> (files w CONFIG_PATH = None \<longrightarrow>
        loadOrCreateConfig P w =
          (Inr (HexEncoder_stringify (map (randomBytes w) [drawn w ..< drawn w + 16])),
           w\<lparr>files := (files w)(CONFIG_PATH \<mapsto> UTF8Encoder_parse (stringifyConfig
                    (HexEncoder_stringify (map (randomBytes w) [drawn w ..< drawn w + 16])))),
             drawn := drawn w + 16,
             trace := trace w @ [Write CONFIG_PATH]\<rparr>))"
  using encrypt_data_main_keeps_config [of P env w] encrypt_data_main_without_config [of w P env]
    loadOrCreateConfig_creates [of w P]
  by simp

text \<open>The theorem at the sample world, which holds no salt file.\<close>

theorem data_only_script_never_creates_salt_witness:
  "files (snd (encrypt_data_main xorPlatform (Some samplePassword) sampleWorld)) CONFIG_PATH
     = files sampleWorld CONFIG_PATH
   \<and> exitCode (fst (encrypt_data_main xorPlatform (Some samplePassword) sampleWorld)) = 1
   \<and> snd (encrypt_data_main xorPlatform (Some samplePassword) sampleWorld) = sampleWorld
   \<and> loadOrCreateConfig xorPlatform sampleWorld =
        (Inr (HexEncoder_stringify (map (randomBytes sampleWorld) [drawn sampleWorld ..< drawn sampleWorld + 16])),
         sampleWorld\<lparr>files := (files sampleWorld)(CONFIG_PATH \<mapsto> UTF8Encoder_parse (stringifyConfig
                  (HexEncoder_stringify (map (randomBytes sampleWorld) [drawn sampleWorld ..< drawn sampleWorld + 16])))),
           drawn := drawn sampleWorld + 16,
           trace := trace sampleWorld @ [Write CONFIG_PATH]\<rparr>)"
proof -
  have absent: "files sampleWorld CONFIG_PATH = None"
    by (simp add: sampleWorld_def)
  show ?thesis
    using data_only_script_never_creates_salt [of xorPlatform "Some samplePassword" sampleWorld]
      absent
    by (simp only: simp_thms)
qed

end
